theory Spec2Isabelle
  imports Main "HOL-Library.Word"
begin

section \<open>Values handled by the renderer\<close>

text \<open>
  The development embeds \<^verbatim>\<open>packages/astro/src/runtime/server/render/astro/render.ts\<close>:
  the entry dispatcher \<^verbatim>\<open>callComponentAsTemplateResultOrResponse\<close>, the head
  propagator \<^verbatim>\<open>bufferHeadContent\<close> and the three adapters \<^verbatim>\<open>renderToString\<close>,
  \<^verbatim>\<open>renderToReadableStream\<close> and \<^verbatim>\<open>renderToAsyncIterable\<close>.
  JavaScript strings are modelled as \<open>string\<close>, a \<^verbatim>\<open>Uint8Array\<close> as a list of
  8-bit words, a thrown exception or a rejected promise as the left injection of a sum.
\<close>

type_synonym byte = "8 word"
type_synonym uint8Array = "byte list"

text \<open>A \<^verbatim>\<open>Response\<close> object; the number is the identity of the object.\<close>

datatype response = Response nat

text \<open>
  Modelled from the spec: the type of a chunk (\<^verbatim>\<open>RenderDestinationChunk\<close>) is declared in
  \<^verbatim>\<open>../common.js\<close>. A chunk is string-like, byte-like, or a short-circuit response.
\<close>

datatype chunk = ChunkString string | ChunkBytes uint8Array | ChunkResponse response

text \<open>\<^verbatim>\<open>chunk instanceof Response\<close>\<close>

fun instanceof_Response :: "chunk \<Rightarrow> bool" where
  "instanceof_Response (ChunkResponse r) = True"
| "instanceof_Response (ChunkString s) = False"
| "instanceof_Response (ChunkBytes b) = False"

subsection \<open>The coercion \<^verbatim>\<open>String(chunk)\<close>\<close>

text \<open>
  JavaScript's \<^verbatim>\<open>String\<close> leaves a string as it is, prints a \<^verbatim>\<open>Uint8Array\<close> as the
  decimal values of its elements joined by commas, and prints a \<^verbatim>\<open>Response\<close> as
  \<^verbatim>\<open>[object Response]\<close>.
\<close>

definition digit :: "nat \<Rightarrow> char" where
  "digit n = ''0123456789'' ! (n mod 10)"

definition byte_decimal :: "byte \<Rightarrow> string" where
  "byte_decimal b =
     (let n = unat b in
      if n < 10 then [digit n]
      else if n < 100 then [digit (n div 10), digit n]
      else [digit (n div 100), digit (n div 10), digit n])"

fun join_comma :: "string list \<Rightarrow> string" where
  "join_comma [] = []"
| "join_comma [s] = s"
| "join_comma (s # t # ss) = s @ CHR '','' # join_comma (t # ss)"

fun js_String :: "chunk \<Rightarrow> string" where
  "js_String (ChunkString s) = s"
| "js_String (ChunkBytes b) = join_comma (map byte_decimal b)"
| "js_String (ChunkResponse r) = ''[object Response]''"

subsection \<open>The regular expression \<^verbatim>\<open>/<!doctype html/i\<close>\<close>

text \<open>
  With the flag \<^verbatim>\<open>i\<close> and without the flag \<^verbatim>\<open>u\<close>, two code units match when their
  upper-case forms agree, and a code unit outside ASCII never matches an ASCII one. On the
  pattern's characters this is the comparison of the ASCII upper-case forms.
\<close>

definition canonicalize :: "char \<Rightarrow> char" where
  "canonicalize c =
     (case map_of (zip ''abcdefghijklmnopqrstuvwxyz'' ''ABCDEFGHIJKLMNOPQRSTUVWXYZ'') c of
        Some u \<Rightarrow> u
      | None \<Rightarrow> c)"

fun matches_here :: "string \<Rightarrow> string \<Rightarrow> bool" where
  "matches_here [] s = True"
| "matches_here (p # ps) [] = False"
| "matches_here (p # ps) (c # cs) = (canonicalize p = canonicalize c \<and> matches_here ps cs)"

fun regexp_test :: "string \<Rightarrow> string \<Rightarrow> bool" where
  "regexp_test pat [] = matches_here pat []"
| "regexp_test pat (c # cs) = (matches_here pat (c # cs) \<or> regexp_test pat cs)"

definition DOCTYPE_EXP_test :: "string \<Rightarrow> bool" where
  "DOCTYPE_EXP_test s = regexp_test ''<!doctype html'' s"

subsection \<open>Errors\<close>

text \<open>
  Modelled from the spec: the error classes live in \<^verbatim>\<open>core/errors\<close>. An
  \<^verbatim>\<open>AstroError\<close> carries a kind, an optional source location and a setter for the
  location. For \<^verbatim>\<open>OnlyResponseCanBeReturned\<close> the kind keeps the two arguments of the
  message, \<^verbatim>\<open>route?.route\<close> and \<^verbatim>\<open>typeof factoryResult\<close>. Any other error object
  that can be thrown is an \<open>OtherError\<close>.
\<close>

record location =
  loc_file :: "string option"

datatype errorData =
    ResponseSentError
  | OnlyResponseCanBeReturned "string option" string

datatype error =
    AstroError errorData "location option"
  | OtherError string

fun AstroError_is :: "error \<Rightarrow> bool" where
  "AstroError_is (AstroError d l) = True"
| "AstroError_is (OtherError m) = False"

fun loc :: "error \<Rightarrow> location option" where
  "loc (AstroError d l) = l"
| "loc (OtherError m) = None"

fun setLocation :: "location \<Rightarrow> error \<Rightarrow> error" where
  "setLocation l (AstroError d l0) = AstroError d (Some l)"
| "setLocation l (OtherError m) = OtherError m"

record routeData =
  route :: string
  component :: string

subsection \<open>Render results\<close>

text \<open>
  Modelled from the spec: the component tree is outside this file. A composable render
  node exposes one operation, \<^verbatim>\<open>render(destination)\<close>, which calls
  \<^verbatim>\<open>destination.write\<close> with its chunks in document order and then settles. It is
  represented by the chunks it writes and by how it settles; when a call of
  \<^verbatim>\<open>write\<close> throws, the exception leaves \<^verbatim>\<open>render\<close> and the remaining chunks are
  not written.
\<close>

datatype render_outcome = Resolves | Rejects error

datatype renderTemplateResult =
  RenderTemplateResult (writes: "chunk list") (outcome: render_outcome)

text \<open>
  What a component factory (or the initializer of a component instance) returns: a
  response, a render node, a head+content pair, or some other value of which only
  \<^verbatim>\<open>typeof\<close> is kept.
\<close>

datatype factoryResult =
    FactoryResponse response
  | FactoryTemplate (template: renderTemplateResult)
  | FactoryHeadAndContent (head: string) (content: renderTemplateResult)
  | FactoryOther string

text \<open>
  Modelled from the spec: \<^verbatim>\<open>isRenderTemplateResult\<close> and \<^verbatim>\<open>isHeadAndContent\<close> are
  defined in \<^verbatim>\<open>./render-template.js\<close> and \<^verbatim>\<open>./head-and-content.js\<close>. A composable
  render node is a plain content node or wraps a head+content pair.
\<close>

fun isRenderTemplateResult :: "factoryResult \<Rightarrow> bool" where
  "isRenderTemplateResult (FactoryTemplate t) = True"
| "isRenderTemplateResult (FactoryHeadAndContent h t) = True"
| "isRenderTemplateResult (FactoryResponse r) = False"
| "isRenderTemplateResult (FactoryOther ty) = False"

fun isHeadAndContent :: "factoryResult \<Rightarrow> bool" where
  "isHeadAndContent (FactoryHeadAndContent h t) = True"
| "isHeadAndContent (FactoryTemplate t) = False"
| "isHeadAndContent (FactoryResponse r) = False"
| "isHeadAndContent (FactoryOther ty) = False"

fun typeof :: "factoryResult \<Rightarrow> string" where
  "typeof (FactoryOther ty) = ty"
| "typeof (FactoryResponse r) = ''object''"
| "typeof (FactoryTemplate t) = ''object''"
| "typeof (FactoryHeadAndContent h t) = ''object''"

subsection \<open>The render context\<close>

text \<open>
  A propagator is a component instance with an initializer. The initializer is outside
  this file; it is represented by what it returns or throws and by the instances it adds
  to the propagator set while it runs (the set is iterated while it grows).
\<close>

datatype propagator =
  Propagator (instance_id: nat) (init: "error + factoryResult") (registers: "propagator list")

record ssrMetadata =
  propagators :: "propagator list"
  extraHead :: "string list"

record ssrResult =
  partial :: bool
  compressHTML :: bool
  metadata :: ssrMetadata

section \<open>The entry dispatcher\<close>

text \<open>
  \<^verbatim>\<open>callComponentAsTemplateResultOrResponse\<close> awaits the factory and classifies what
  it gets. A factory that rejects makes the dispatcher reject with the same error.
\<close>

datatype templateResultOrResponse =
    IsResponse response
  | IsTemplate renderTemplateResult

type_synonym ('p, 'c) astroComponentFactory =
  "ssrResult \<Rightarrow> 'p \<Rightarrow> 'c \<Rightarrow> error + factoryResult"

definition callComponentAsTemplateResultOrResponse ::
  "ssrResult \<Rightarrow> ('p, 'c) astroComponentFactory \<Rightarrow> 'p \<Rightarrow> 'c \<Rightarrow> routeData option
     \<Rightarrow> error + templateResultOrResponse" where
  "callComponentAsTemplateResultOrResponse result componentFactory props children rt =
     (case componentFactory result props children of
        Inl e \<Rightarrow> Inl e
      | Inr factoryResult \<Rightarrow>
          (case factoryResult of
             FactoryResponse r \<Rightarrow> Inr (IsResponse r)
           | _ \<Rightarrow>
               if \<not> isRenderTemplateResult factoryResult then
                 Inl (AstroError
                        (OnlyResponseCanBeReturned (map_option route rt) (typeof factoryResult))
                        (Some \<lparr>loc_file = map_option component rt\<rparr>))
               else
                 Inr (IsTemplate
                        (if isHeadAndContent factoryResult then content factoryResult
                         else template factoryResult))))"

section \<open>The head propagator\<close>

text \<open>
  \<^verbatim>\<open>result._metadata.propagators\<close> is a JavaScript \<^verbatim>\<open>Set\<close>: a list in insertion
  order without two entries of the same identity. Its iterator is live, so an instance
  that is added while the loop runs is visited later in the same loop.
\<close>

definition propagators_add :: "propagator \<Rightarrow> propagator list \<Rightarrow> propagator list" where
  "propagators_add p ps =
     (if instance_id p \<in> set (map instance_id ps) then ps else ps @ [p])"

definition register_all :: "propagator list \<Rightarrow> ssrResult \<Rightarrow> ssrResult" where
  "register_all new result =
     result\<lparr>metadata := (metadata result)\<lparr>propagators :=
       fold propagators_add new (propagators (metadata result))\<rparr>\<rparr>"

text \<open>
  \<^verbatim>\<open>if (isHeadAndContent(returnValue)) result._metadata.extraHead.push(returnValue.head)\<close>
\<close>

definition push_head :: "factoryResult \<Rightarrow> ssrResult \<Rightarrow> ssrResult" where
  "push_head returnValue result =
     (if isHeadAndContent returnValue
      then result\<lparr>metadata := (metadata result)\<lparr>extraHead :=
             extraHead (metadata result) @ [head returnValue]\<rparr>\<rparr>
      else result)"

lemma fold_propagators_add_grows:
  "\<exists>ys. fold propagators_add new ps = ps @ ys \<and>
        sum_list (map size ys) \<le> sum_list (map size new)"
proof (induction new arbitrary: ps)
  case Nil
  then show ?case by simp
next
  case (Cons p new)
  obtain ys where ys:
    "fold propagators_add new (propagators_add p ps) = propagators_add p ps @ ys"
    "sum_list (map size ys) \<le> sum_list (map size new)"
    using Cons.IH by blast
  show ?case
  proof (cases "instance_id p \<in> set (map instance_id ps)")
    case True
    with ys have "fold propagators_add (p # new) ps = ps @ ys"
      by (simp add: propagators_add_def)
    moreover have "sum_list (map size ys) \<le> sum_list (map size (p # new))"
      using ys(2) by simp
    ultimately show ?thesis by blast
  next
    case False
    with ys have "fold propagators_add (p # new) ps = ps @ (p # ys)"
      by (simp add: propagators_add_def)
    moreover have "sum_list (map size (p # ys)) \<le> sum_list (map size (p # new))"
      using ys(2) by simp
    ultimately show ?thesis by blast
  qed
qed

text \<open>
  The loop of \<^verbatim>\<open>bufferHeadContent\<close>; \<open>i\<close> is the position of the iterator. The
  loop ends when the iterator is exhausted; an initializer that rejects ends it with the
  error.
\<close>

function bufferHeadLoop :: "nat \<Rightarrow> ssrResult \<Rightarrow> error + ssrResult" where
  "bufferHeadLoop i result =
     (if length (propagators (metadata result)) \<le> i then Inr result
      else
        let inst = propagators (metadata result) ! i in
        case init inst of
          Inl e \<Rightarrow> Inl e
        | Inr returnValue \<Rightarrow>
            bufferHeadLoop (i + 1)
              (push_head returnValue (register_all (registers inst) result)))"
  by pat_completeness auto
termination
proof (relation "measure (\<lambda>(i, result).
    sum_list (map size (drop i (propagators (metadata result)))))", goal_cases)
  case 1
  then show ?case by simp
next
  case (2 i result inst returnValue)
  let ?ps = "propagators (metadata result)"
  from 2 have i: "i < length ?ps" by simp
  obtain ys where ys: "fold propagators_add (registers inst) ?ps = ?ps @ ys"
    "sum_list (map size ys) \<le> sum_list (map size (registers inst))"
    using fold_propagators_add_grows by blast
  have "sum_list (map size (registers inst)) < size inst"
    by (cases inst) (simp add: size_list_conv_sum_list)
  moreover have "drop i ?ps = inst # drop (Suc i) ?ps"
    using i 2 by (simp add: Cons_nth_drop_Suc)
  ultimately show ?case
    using ys i by (simp add: push_head_def register_all_def)
qed

declare bufferHeadLoop.simps [simp del]

definition bufferHeadContent :: "ssrResult \<Rightarrow> error + ssrResult" where
  "bufferHeadContent result = bufferHeadLoop 0 result"

section \<open>Doctype insertion\<close>

text \<open>
  \<^verbatim>\<open>result.compressHTML ? '<!DOCTYPE html>' : '<!DOCTYPE html>\n'\<close>
\<close>

definition doctype :: "ssrResult \<Rightarrow> string" where
  "doctype result =
     (if compressHTML result then ''<!DOCTYPE html>'' else ''<!DOCTYPE html>'' @ [CHR 0x0A])"

text \<open>
  The test that all three \<^verbatim>\<open>write\<close> functions make on the chunk once the flag
  \<^verbatim>\<open>renderedFirstPageChunk\<close> has been set:
  \<^verbatim>\<open>!result.partial && !DOCTYPE_EXP.test(String(chunk))\<close>.
\<close>

definition needs_doctype :: "ssrResult \<Rightarrow> chunk \<Rightarrow> bool" where
  "needs_doctype result chunk = (\<not> partial result \<and> \<not> DOCTYPE_EXP_test (js_String chunk))"

text \<open>
  Modelled from the spec: \<^verbatim>\<open>encoder\<close> is the \<^verbatim>\<open>TextEncoder\<close> of \<^verbatim>\<open>../common.js\<close>.
  A \<open>string\<close> is a sequence of 8-bit characters, which \<^verbatim>\<open>encode\<close> turns into the
  bytes of the same values.
\<close>

definition encode :: "string \<Rightarrow> uint8Array" where
  "encode s = map (\<lambda>c. of_nat (of_char c)) s"

record doctype_state =
  renderedFirstPageChunk :: bool

section \<open>Rendering into a destination\<close>

text \<open>
  \<^verbatim>\<open>templateResult.render(destination)\<close>. A destination is its \<^verbatim>\<open>write\<close>
  function on the variables it closes over: it returns the variables as the call leaves
  them, and the exception if the call throws. The chunks are written in order; the first
  call that throws makes the render reject with that exception.
\<close>

type_synonym 's destination = "'s \<Rightarrow> chunk \<Rightarrow> 's \<times> error option"

fun render_chunks :: "'s destination \<Rightarrow> chunk list \<Rightarrow> render_outcome \<Rightarrow> 's
    \<Rightarrow> 's \<times> render_outcome" where
  "render_chunks write [] oc st = (st, oc)"
| "render_chunks write (chunk # chunks) oc st =
     (case write st chunk of
        (st', Some e) \<Rightarrow> (st', Rejects e)
      | (st', None) \<Rightarrow> render_chunks write chunks oc st')"

definition render :: "renderTemplateResult \<Rightarrow> 's destination \<Rightarrow> 's \<Rightarrow> 's \<times> render_outcome" where
  "render templateResult write st =
     render_chunks write (writes templateResult) (outcome templateResult) st"

section \<open>The String Adapter\<close>

text \<open>
  The two variables of \<^verbatim>\<open>renderToString\<close> that \<^verbatim>\<open>destination.write\<close> closes over.
  The conversion \<^verbatim>\<open>chunkToString\<close> of \<^verbatim>\<open>../common.js\<close> is a parameter.
\<close>

record string_state = doctype_state +
  str :: string

definition string_write ::
  "(ssrResult \<Rightarrow> chunk \<Rightarrow> string) \<Rightarrow> ssrResult \<Rightarrow> bool \<Rightarrow> string_state \<Rightarrow> chunk
     \<Rightarrow> string_state" where
  "string_write chunkToString result isPage st chunk =
     (let st1 =
        (if isPage \<and> \<not> renderedFirstPageChunk st then
           (let st' = st\<lparr>renderedFirstPageChunk := True\<rparr> in
            if needs_doctype result chunk then st'\<lparr>str := str st' @ doctype result\<rparr>
            else st')
         else st)
      in
        if instanceof_Response chunk then st1
        else st1\<lparr>str := str st1 @ chunkToString result chunk\<rparr>)"

definition string_destination ::
  "(ssrResult \<Rightarrow> chunk \<Rightarrow> string) \<Rightarrow> ssrResult \<Rightarrow> bool \<Rightarrow> string_state \<Rightarrow> chunk
     \<Rightarrow> string_state \<times> error option" where
  "string_destination chunkToString result isPage st chunk =
     (string_write chunkToString result isPage st chunk, None)"

text \<open>\<^verbatim>\<open>let str = ''; let renderedFirstPageChunk = false;\<close>\<close>

definition string_initial :: string_state where
  "string_initial = \<lparr>renderedFirstPageChunk = False, str = ''''\<rparr>"

datatype 'a or_response = ReturnsResponse response | Returns 'a

text \<open>
  Each adapter returns the render context as it leaves it, together with its result.
\<close>

definition renderToString ::
  "(ssrResult \<Rightarrow> chunk \<Rightarrow> string) \<Rightarrow> ssrResult \<Rightarrow> ('p, 'c) astroComponentFactory
     \<Rightarrow> 'p \<Rightarrow> 'c \<Rightarrow> bool \<Rightarrow> routeData option
     \<Rightarrow> error + (ssrResult \<times> string or_response)" where
  "renderToString chunkToString result componentFactory props children isPage rt =
     (case callComponentAsTemplateResultOrResponse result componentFactory props children rt of
        Inl e \<Rightarrow> Inl e
      | Inr (IsResponse r) \<Rightarrow> Inr (result, ReturnsResponse r)
      | Inr (IsTemplate templateResult) \<Rightarrow>
          (case render templateResult (string_destination chunkToString result isPage)
                  string_initial of
             (st, Rejects e) \<Rightarrow> Inl e
           | (st, Resolves) \<Rightarrow> Inr (result, Returns (str st))))"

section \<open>The Stream Adapter\<close>

text \<open>
  The variable \<^verbatim>\<open>renderedFirstPageChunk\<close>, the stream's controller and the timers of
  the event loop. Of the controller, \<open>enqueued\<close> are the arguments of the calls of
  \<^verbatim>\<open>controller.enqueue\<close> in order, \<open>closed\<close> tells that \<^verbatim>\<open>controller.close\<close> was
  called, and \<open>errored\<close> holds the argument of \<^verbatim>\<open>controller.error\<close>. An entry
  \<open>e\<close> of \<open>timeouts\<close> is a pending callback \<^verbatim>\<open>() => controller.error(e)\<close>.
  The conversion \<^verbatim>\<open>chunkToByteArray\<close> of \<^verbatim>\<open>../common.js\<close> is a parameter.
\<close>

record stream_state = doctype_state +
  enqueued :: "uint8Array list"
  closed :: bool
  errored :: "error option"
  timeouts :: "error list"

definition stream_write ::
  "(ssrResult \<Rightarrow> chunk \<Rightarrow> uint8Array) \<Rightarrow> ssrResult \<Rightarrow> bool \<Rightarrow> stream_state destination" where
  "stream_write chunkToByteArray result isPage st chunk =
     (let st1 =
        (if isPage \<and> \<not> renderedFirstPageChunk st then
           (let st' = st\<lparr>renderedFirstPageChunk := True\<rparr> in
            if needs_doctype result chunk
            then st'\<lparr>enqueued := enqueued st' @ [encode (doctype result)]\<rparr>
            else st')
         else st)
      in
        if instanceof_Response chunk then (st1, Some (AstroError ResponseSentError None))
        else (st1\<lparr>enqueued := enqueued st1 @ [chunkToByteArray result chunk]\<rparr>, None))"

text \<open>
  The detached task that \<^verbatim>\<open>start\<close> launches: the render, then
  \<^verbatim>\<open>controller.close()\<close>, or the \<^verbatim>\<open>catch\<close> block with its \<^verbatim>\<open>setTimeout\<close>.
\<close>

definition stream_task ::
  "(ssrResult \<Rightarrow> chunk \<Rightarrow> uint8Array) \<Rightarrow> ssrResult \<Rightarrow> bool \<Rightarrow> routeData option
     \<Rightarrow> renderTemplateResult \<Rightarrow> stream_state \<Rightarrow> stream_state" where
  "stream_task chunkToByteArray result isPage rt templateResult st =
     (case render templateResult (stream_write chunkToByteArray result isPage) st of
        (st', Resolves) \<Rightarrow> st'\<lparr>closed := True\<rparr>
      | (st', Rejects e) \<Rightarrow>
          (let e' = (if AstroError_is e \<and> loc e = None
                     then setLocation \<lparr>loc_file = map_option component rt\<rparr> e
                     else e)
           in st'\<lparr>timeouts := timeouts st' @ [e']\<rparr>))"

text \<open>
  \<^verbatim>\<open>controller.error(e)\<close> has an effect only on a stream that is still readable. The
  next tick of the event loop runs the pending timer callbacks.
\<close>

definition controller_error :: "error \<Rightarrow> stream_state \<Rightarrow> stream_state" where
  "controller_error e st =
     (if \<not> closed st \<and> errored st = None then st\<lparr>errored := Some e\<rparr> else st)"

definition next_tick :: "stream_state \<Rightarrow> stream_state" where
  "next_tick st = fold controller_error (timeouts st) (st\<lparr>timeouts := []\<rparr>)"

text \<open>A stream that has just been constructed, and \<^verbatim>\<open>let renderedFirstPageChunk = false\<close>.\<close>

definition stream_initial :: stream_state where
  "stream_initial =
     \<lparr>renderedFirstPageChunk = False, enqueued = [], closed = False, errored = None,
      timeouts = []\<rparr>"

definition renderToReadableStream ::
  "(ssrResult \<Rightarrow> chunk \<Rightarrow> uint8Array) \<Rightarrow> ssrResult \<Rightarrow> ('p, 'c) astroComponentFactory
     \<Rightarrow> 'p \<Rightarrow> 'c \<Rightarrow> bool \<Rightarrow> routeData option
     \<Rightarrow> error + (ssrResult \<times> stream_state or_response)" where
  "renderToReadableStream chunkToByteArray result componentFactory props children isPage rt =
     (case callComponentAsTemplateResultOrResponse result componentFactory props children rt of
        Inl e \<Rightarrow> Inl e
      | Inr (IsResponse r) \<Rightarrow> Inr (result, ReturnsResponse r)
      | Inr (IsTemplate templateResult) \<Rightarrow>
          (case (if isPage then bufferHeadContent result else Inr result) of
             Inl e \<Rightarrow> Inl e
           | Inr result' \<Rightarrow>
               Inr (result', Returns
                 (stream_task chunkToByteArray result' isPage rt templateResult
                    stream_initial))))"

section \<open>The Async-Iterable Adapter\<close>

text \<open>
  The render task as the adapter sees it: chunks still to be written and the way the
  render will settle, until the handler of \<^verbatim>\<open>renderPromise\<close> has run.
\<close>

datatype render_task = Running "chunk list" render_outcome | Finished

text \<open>What a call of \<^verbatim>\<open>iterator.next()\<close> gives its caller.\<close>

record iteratorResult =
  done_flag :: bool
  value_bytes :: uint8Array

text \<open>
  The variables of \<^verbatim>\<open>renderToAsyncIterable\<close>: \<^verbatim>\<open>renderedFirstPageChunk\<close>,
  \<^verbatim>\<open>error\<close>, \<^verbatim>\<open>next\<close> and \<^verbatim>\<open>buffer\<close>. Promises live in a store: \<open>promises\<close>
  tells of each promise created so far whether it is resolved, and \<open>next\<close> is the index
  of the promise that the variable \<^verbatim>\<open>next\<close> holds. Beside them stand the render task,
  the promises that the suspended calls of \<^verbatim>\<open>next()\<close> await (oldest first), and what
  the calls of \<^verbatim>\<open>next()\<close> have given so far.
\<close>

record iterable_state = doctype_state +
  error :: "error option"
  "next" :: nat
  promises :: "bool list"
  buffer :: "uint8Array list"
  task :: render_task
  awaiting :: "nat list"
  delivered :: "(error + iteratorResult) list"

text \<open>\<^verbatim>\<open>next.resolve()\<close> and \<^verbatim>\<open>next = promiseWithResolvers()\<close>\<close>

definition next_resolve :: "iterable_state \<Rightarrow> iterable_state" where
  "next_resolve st = st\<lparr>promises := (promises st)[next st := True]\<rparr>"

definition next_renew :: "iterable_state \<Rightarrow> iterable_state" where
  "next_renew st = st\<lparr>promises := promises st @ [False], next := length (promises st)\<rparr>"

definition is_resolved :: "iterable_state \<Rightarrow> nat \<Rightarrow> bool" where
  "is_resolved st p = (p < length (promises st) \<and> promises st ! p)"

definition iterable_write ::
  "(ssrResult \<Rightarrow> chunk \<Rightarrow> uint8Array) \<Rightarrow> ssrResult \<Rightarrow> bool \<Rightarrow> iterable_state destination" where
  "iterable_write chunkToByteArray result isPage st chunk =
     (let st1 =
        (if isPage \<and> \<not> renderedFirstPageChunk st then
           (let st' = st\<lparr>renderedFirstPageChunk := True\<rparr> in
            if needs_doctype result chunk
            then st'\<lparr>buffer := buffer st' @ [encode (doctype result)]\<rparr>
            else st')
         else st)
      in
        if instanceof_Response chunk then (st1, Some (AstroError ResponseSentError None))
        else
          (let bytes = chunkToByteArray result chunk in
           if length bytes > 0
           then (next_renew (next_resolve (st1\<lparr>buffer := buffer st1 @ [bytes]\<rparr>)), None)
           else (st1, None)))"

text \<open>
  The two loops of \<^verbatim>\<open>next()\<close>. \<^verbatim>\<open>mergedArray.set(item, offset)\<close> overwrites a
  segment of the array and throws a \<^verbatim>\<open>RangeError\<close> when the segment does not fit.
\<close>

fun total_length :: "uint8Array list \<Rightarrow> nat \<Rightarrow> nat" where
  "total_length [] len = len"
| "total_length (item # rest) len = total_length rest (len + length item)"

definition array_set :: "uint8Array \<Rightarrow> uint8Array \<Rightarrow> nat \<Rightarrow> uint8Array option" where
  "array_set target source offset =
     (if offset + length source \<le> length target
      then Some (take offset target @ source @ drop (offset + length source) target)
      else None)"

fun merge_loop :: "uint8Array list \<Rightarrow> uint8Array \<Rightarrow> nat \<Rightarrow> uint8Array option" where
  "merge_loop [] mergedArray offset = Some mergedArray"
| "merge_loop (item # rest) mergedArray offset =
     (case array_set mergedArray item offset of
        None \<Rightarrow> None
      | Some m \<Rightarrow> merge_loop rest m (offset + length item))"

text \<open>The body of \<^verbatim>\<open>next()\<close> after \<^verbatim>\<open>await next.promise\<close>.\<close>

definition iterator_next_body :: "iterable_state \<Rightarrow> (error + iteratorResult) \<times> iterable_state" where
  "iterator_next_body st =
     (case error st of
        Some e \<Rightarrow> (Inl e, st)
      | None \<Rightarrow>
          (let len = total_length (buffer st) 0 in
           case merge_loop (buffer st) (replicate len 0) 0 of
             None \<Rightarrow> (Inl (OtherError ''RangeError''), st)
           | Some mergedArray \<Rightarrow>
               (Inr \<lparr>done_flag = (len = 0), value_bytes = mergedArray\<rparr>, st\<lparr>buffer := []\<rparr>)))"

text \<open>
  The event loop interleaves the render task with the consumer. \<open>RenderStep\<close> lets the
  render write its next chunk or, when it has settled, runs the handler that
  \<^verbatim>\<open>renderToAsyncIterable\<close> attached to \<^verbatim>\<open>renderPromise\<close>. \<open>NextCall\<close> is a call
  of \<^verbatim>\<open>iterator.next()\<close> up to its \<^verbatim>\<open>await\<close>. \<open>NextResume\<close> continues the oldest
  suspended call, which is possible only when the promise it awaits is resolved.
\<close>

datatype action = RenderStep | NextCall | NextResume

definition render_step ::
  "(ssrResult \<Rightarrow> chunk \<Rightarrow> uint8Array) \<Rightarrow> ssrResult \<Rightarrow> bool \<Rightarrow> iterable_state
     \<Rightarrow> iterable_state option" where
  "render_step chunkToByteArray result isPage st =
     (case task st of
        Finished \<Rightarrow> None
      | Running [] Resolves \<Rightarrow> Some ((next_resolve st)\<lparr>task := Finished\<rparr>)
      | Running [] (Rejects err) \<Rightarrow>
          Some ((next_resolve (st\<lparr>error := Some err\<rparr>))\<lparr>task := Finished\<rparr>)
      | Running (chunk # chunks) oc \<Rightarrow>
          (case iterable_write chunkToByteArray result isPage st chunk of
             (st', None) \<Rightarrow> Some (st'\<lparr>task := Running chunks oc\<rparr>)
           | (st', Some e) \<Rightarrow> Some (st'\<lparr>task := Running [] (Rejects e)\<rparr>)))"

definition next_call :: "iterable_state \<Rightarrow> iterable_state" where
  "next_call st = st\<lparr>awaiting := awaiting st @ [next st]\<rparr>"

definition next_resume :: "iterable_state \<Rightarrow> iterable_state option" where
  "next_resume st =
     (case awaiting st of
        [] \<Rightarrow> None
      | p # ps \<Rightarrow>
          if is_resolved st p then
            (case iterator_next_body st of
               (r, st') \<Rightarrow> Some (st'\<lparr>awaiting := ps, delivered := delivered st' @ [r]\<rparr>))
          else None)"

fun step ::
  "(ssrResult \<Rightarrow> chunk \<Rightarrow> uint8Array) \<Rightarrow> ssrResult \<Rightarrow> bool \<Rightarrow> iterable_state \<Rightarrow> action
     \<Rightarrow> iterable_state option" where
  "step chunkToByteArray result isPage st RenderStep =
     render_step chunkToByteArray result isPage st"
| "step chunkToByteArray result isPage st NextCall = Some (next_call st)"
| "step chunkToByteArray result isPage st NextResume = next_resume st"

fun run ::
  "(ssrResult \<Rightarrow> chunk \<Rightarrow> uint8Array) \<Rightarrow> ssrResult \<Rightarrow> bool \<Rightarrow> iterable_state \<Rightarrow> action list
     \<Rightarrow> iterable_state option" where
  "run chunkToByteArray result isPage st [] = Some st"
| "run chunkToByteArray result isPage st (a # as) =
     (case step chunkToByteArray result isPage st a of
        None \<Rightarrow> None
      | Some st' \<Rightarrow> run chunkToByteArray result isPage st' as)"

text \<open>
  The variables as \<^verbatim>\<open>renderToAsyncIterable\<close> declares them, with the render task
  about to start: \<^verbatim>\<open>error = null\<close>, \<^verbatim>\<open>next = promiseWithResolvers()\<close>,
  \<^verbatim>\<open>buffer = []\<close>.
\<close>

definition iterable_initial :: "renderTemplateResult \<Rightarrow> iterable_state" where
  "iterable_initial templateResult =
     \<lparr>renderedFirstPageChunk = False, error = None, next = 0, promises = [False],
      buffer = [], task = Running (writes templateResult) (outcome templateResult),
      awaiting = [], delivered = []\<rparr>"

definition renderToAsyncIterable ::
  "ssrResult \<Rightarrow> ('p, 'c) astroComponentFactory \<Rightarrow> 'p \<Rightarrow> 'c \<Rightarrow> bool \<Rightarrow> routeData option
     \<Rightarrow> error + (ssrResult \<times> iterable_state or_response)" where
  "renderToAsyncIterable result componentFactory props children isPage rt =
     (case callComponentAsTemplateResultOrResponse result componentFactory props children rt of
        Inl e \<Rightarrow> Inl e
      | Inr (IsResponse r) \<Rightarrow> Inr (result, ReturnsResponse r)
      | Inr (IsTemplate templateResult) \<Rightarrow>
          (case (if isPage then bufferHeadContent result else Inr result) of
             Inl e \<Rightarrow> Inl e
           | Inr result' \<Rightarrow>
               Inr (result', Returns (iterable_initial templateResult))))"

section \<open>Facts about the doctype test\<close>

text \<open>
  The coercion of a byte chunk holds digits and commas only, and that of a response is a
  fixed text: the expression matches neither.
\<close>

lemma matches_here_first:
  "matches_here (p # ps) s \<Longrightarrow> \<exists>c \<in> set s. canonicalize p = canonicalize c"
  by (cases s) auto

lemma regexp_test_needs_first:
  "regexp_test (p # ps) s \<Longrightarrow> \<exists>c \<in> set s. canonicalize p = canonicalize c"
proof (induction s)
  case Nil
  then show ?case by simp
next
  case (Cons c cs)
  then show ?case using matches_here_first [of p ps "c # cs"] by auto
qed

lemma digit_not_lt: "digit n \<noteq> CHR ''<''"
proof -
  have "digit n \<in> set ''0123456789''"
    unfolding digit_def by (rule nth_mem) simp
  then show ?thesis by auto
qed

lemma byte_decimal_no_lt: "CHR ''<'' \<notin> set (byte_decimal b)"
  using digit_not_lt by (simp add: byte_decimal_def Let_def) metis

lemma join_comma_avoids:
  "(\<forall>s \<in> set ss. x \<notin> set s) \<Longrightarrow> x \<noteq> CHR '','' \<Longrightarrow> x \<notin> set (join_comma ss)"
  by (induction ss rule: join_comma.induct) auto

lemma js_String_bytes_no_lt: "CHR ''<'' \<notin> set (js_String (ChunkBytes b))"
  using byte_decimal_no_lt by (simp add: join_comma_avoids)

lemma canonicalize_lt: "canonicalize c = CHR ''<'' \<Longrightarrow> c = CHR ''<''"
  by (auto simp: canonicalize_def split: option.splits if_splits)

lemma bytes_never_doctype: "\<not> DOCTYPE_EXP_test (js_String (ChunkBytes b))"
proof
  assume "DOCTYPE_EXP_test (js_String (ChunkBytes b))"
  then obtain c where c: "c \<in> set (js_String (ChunkBytes b))" "canonicalize CHR ''<'' = canonicalize c"
    unfolding DOCTYPE_EXP_test_def using regexp_test_needs_first by fastforce
  from c(2) have "c = CHR ''<''"
    using canonicalize_lt [of c] by (simp add: canonicalize_def)
  with c(1) js_String_bytes_no_lt [of b] show False by auto
qed

lemma response_never_doctype: "\<not> DOCTYPE_EXP_test (js_String (ChunkResponse r))"
  by (simp add: DOCTYPE_EXP_test_def canonicalize_def)

section \<open>What a render is expected to emit\<close>

text \<open>
  The statements of this section follow the specification's words. The doctype of a render
  is decided by its first chunk alone: a full page, a context that is not partial, and a
  first chunk without the marker give the doctype, compressed or followed by a newline;
  anything else gives nothing.
\<close>

definition doctype_for :: "ssrResult \<Rightarrow> bool \<Rightarrow> chunk list \<Rightarrow> string" where
  "doctype_for result isPage chunks =
     (case chunks of
        [] \<Rightarrow> ''''
      | first # rest \<Rightarrow>
          if isPage \<and> \<not> partial result \<and> \<not> DOCTYPE_EXP_test (js_String first)
          then (if compressHTML result then ''<!DOCTYPE html>'' else ''<!DOCTYPE html>\<newline>'')
          else '''')"

definition doctype_unit :: "ssrResult \<Rightarrow> bool \<Rightarrow> chunk list \<Rightarrow> uint8Array list" where
  "doctype_unit result isPage chunks =
     (if doctype_for result isPage chunks = '''' then []
      else [encode (doctype_for result isPage chunks)])"

definition non_responses :: "chunk list \<Rightarrow> chunk list" where
  "non_responses chunks = filter (\<lambda>c. \<not> instanceof_Response c) chunks"

definition before_response :: "chunk list \<Rightarrow> chunk list" where
  "before_response chunks = takeWhile (\<lambda>c. \<not> instanceof_Response c) chunks"

definition settles :: "chunk list \<Rightarrow> render_outcome \<Rightarrow> render_outcome" where
  "settles chunks oc =
     (if list_all (\<lambda>c. \<not> instanceof_Response c) chunks then oc
      else Rejects (AstroError ResponseSentError None))"


lemma doctype_for_Cons:
  "doctype_for result isPage (c # cs) =
     (if isPage \<and> needs_doctype result c then doctype result else '''')"
  by (simp add: doctype_for_def needs_doctype_def doctype_def)

lemma doctype_unit_Cons:
  "doctype_unit result isPage (c # cs) =
     (if isPage \<and> needs_doctype result c then [encode (doctype result)] else [])"
  by (simp add: doctype_unit_def doctype_for_Cons) (simp add: doctype_def)

lemma string_render_seen:
  "\<not> isPage \<or> renderedFirstPageChunk st \<Longrightarrow>
   render_chunks (string_destination f result isPage) cs oc st =
     (st\<lparr>str := str st @ concat (map (f result) (non_responses cs))\<rparr>, oc)"
proof (induction cs arbitrary: st)
  case Nil
  then show ?case by (simp add: non_responses_def)
next
  case (Cons c cs)
  let ?st = "string_write f result isPage st c"
  have st: "?st = st\<lparr>str := str st @ concat (map (f result) (non_responses [c]))\<rparr>"
    using Cons.prems by (auto simp: string_write_def non_responses_def)
  then have "\<not> isPage \<or> renderedFirstPageChunk ?st"
    using Cons.prems by auto
  from Cons.IH [OF this] show ?case
    by (simp add: string_destination_def st non_responses_def)
qed

lemma string_render_first:
  "isPage \<Longrightarrow> \<not> renderedFirstPageChunk st \<Longrightarrow>
   render_chunks (string_destination f result isPage) cs oc st =
     (st\<lparr>renderedFirstPageChunk := (cs \<noteq> []),
         str := str st @ doctype_for result isPage cs @ concat (map (f result) (non_responses cs))\<rparr>, oc)"
proof (cases cs)
  case Nil
  assume "\<not> renderedFirstPageChunk st"
  then show ?thesis using Nil by (simp add: non_responses_def doctype_for_def)
next
  case (Cons c cs')
  assume a: "isPage" "\<not> renderedFirstPageChunk st"
  let ?st = "string_write f result isPage st c"
  have st: "?st = st\<lparr>renderedFirstPageChunk := True,
      str := str st @ doctype_for result isPage cs @ concat (map (f result) (non_responses [c]))\<rparr>"
    using a Cons by (auto simp: string_write_def non_responses_def doctype_for_Cons Let_def)
  have "renderedFirstPageChunk ?st" by (simp add: st)
  then have "\<not> isPage \<or> renderedFirstPageChunk ?st" by simp
  from string_render_seen [OF this] show ?thesis
    using Cons by (simp add: string_destination_def st non_responses_def)
qed

lemma stream_render_seen:
  "\<not> isPage \<or> renderedFirstPageChunk st \<Longrightarrow>
   render_chunks (stream_write f result isPage) cs oc st =
     (st\<lparr>enqueued := enqueued st @ map (f result) (before_response cs)\<rparr>, settles cs oc)"
proof (induction cs arbitrary: st)
  case Nil
  then show ?case by (simp add: before_response_def settles_def)
next
  case (Cons c cs)
  show ?case
  proof (cases "instanceof_Response c")
    case True
    then show ?thesis using Cons.prems
      by (auto simp: stream_write_def before_response_def settles_def)
  next
    case False
    let ?st = "st\<lparr>enqueued := enqueued st @ [f result c]\<rparr>"
    have w: "stream_write f result isPage st c = (?st, None)"
      using Cons.prems False by (auto simp: stream_write_def)
    have "\<not> isPage \<or> renderedFirstPageChunk ?st"
      using Cons.prems by auto
    from Cons.IH [OF this] show ?thesis
      using False by (simp add: w before_response_def settles_def)
  qed
qed

lemma stream_render_first:
  "isPage \<Longrightarrow> \<not> renderedFirstPageChunk st \<Longrightarrow>
   render_chunks (stream_write f result isPage) cs oc st =
     (st\<lparr>renderedFirstPageChunk := (cs \<noteq> []),
         enqueued := enqueued st @ doctype_unit result isPage cs
                       @ map (f result) (before_response cs)\<rparr>, settles cs oc)"
proof (cases cs)
  case Nil
  assume "\<not> renderedFirstPageChunk st"
  then show ?thesis using Nil
    by (simp add: before_response_def doctype_unit_def doctype_for_def settles_def)
next
  case (Cons c cs')
  assume a: "isPage" "\<not> renderedFirstPageChunk st"
  let ?st1 = "st\<lparr>renderedFirstPageChunk := True,
                  enqueued := enqueued st @ doctype_unit result isPage cs\<rparr>"
  show ?thesis
  proof (cases "instanceof_Response c")
    case True
    have "stream_write f result isPage st c = (?st1, Some (AstroError ResponseSentError None))"
      using a Cons True by (auto simp: stream_write_def doctype_unit_Cons Let_def)
    then show ?thesis using Cons True
      by (simp add: before_response_def settles_def)
  next
    case False
    let ?st = "?st1\<lparr>enqueued := enqueued ?st1 @ [f result c]\<rparr>"
    have w: "stream_write f result isPage st c = (?st, None)"
      using a Cons False by (auto simp: stream_write_def doctype_unit_Cons Let_def)
    have "\<not> isPage \<or> renderedFirstPageChunk ?st" by simp
    from stream_render_seen [OF this] show ?thesis
      using Cons False by (simp add: w before_response_def settles_def)
  qed
qed

section \<open>Facts about the Async-Iterable Adapter\<close>

subsection \<open>The two loops of \<^verbatim>\<open>next()\<close> concatenate the buffer\<close>

lemma total_length_sum: "total_length items len = len + sum_list (map length items)"
  by (induction items arbitrary: len) auto

lemma merge_loop_concat:
  "length rest = sum_list (map length items) \<Longrightarrow>
   merge_loop items (pre @ rest) (length pre) = Some (pre @ concat items)"
proof (induction items arbitrary: pre rest)
  case Nil
  then show ?case by simp
next
  case (Cons item items)
  from Cons.prems have len: "length item \<le> length rest" by simp
  then have s: "array_set (pre @ rest) item (length pre)
      = Some ((pre @ item) @ drop (length item) rest)"
    by (simp add: array_set_def)
  have "length (drop (length item) rest) = sum_list (map length items)"
    using Cons.prems by simp
  from Cons.IH [OF this, of "pre @ item"] show ?case
    by (simp add: s)
qed

lemma merge_loop_buffer:
  "merge_loop items (replicate (total_length items 0) 0) 0 = Some (concat items)"
  using merge_loop_concat [of "replicate (total_length items 0) 0" items "[]"]
  by (simp add: total_length_sum)

lemma length_concat_sum: "length (concat items) = sum_list (map length items)"
  by (induction items) auto

lemma iterator_next_body_error:
  "error st = Some e \<Longrightarrow> iterator_next_body st = (Inl e, st)"
  by (simp add: iterator_next_body_def)

lemma iterator_next_body_merged:
  "error st = None \<Longrightarrow>
   iterator_next_body st =
     (Inr \<lparr>done_flag = (concat (buffer st) = []), value_bytes = concat (buffer st)\<rparr>,
      st\<lparr>buffer := []\<rparr>)"
proof -
  have "(total_length (buffer st) 0 = 0) = (concat (buffer st) = [])"
    by (simp add: total_length_sum length_concat_sum [symmetric] del: length_concat)
  then show "error st = None \<Longrightarrow> ?thesis"
    by (simp add: iterator_next_body_def merge_loop_buffer Let_def)
qed

subsection \<open>No byte is lost or made up\<close>

text \<open>
  \<open>pending_bytes\<close> are the bytes that the chunks still to be written will put into the
  buffer. The bytes given to the consumer, those in the buffer and those still to come
  form a sequence that no step of the event loop changes.
\<close>

fun pending_bytes ::
  "(ssrResult \<Rightarrow> chunk \<Rightarrow> uint8Array) \<Rightarrow> ssrResult \<Rightarrow> bool \<Rightarrow> bool \<Rightarrow> chunk list
     \<Rightarrow> uint8Array" where
  "pending_bytes f result isPage seen [] = []"
| "pending_bytes f result isPage seen (c # cs) =
     (if isPage \<and> \<not> seen \<and> needs_doctype result c then encode (doctype result) else [])
     @ (if instanceof_Response c then []
        else f result c @ pending_bytes f result isPage (seen \<or> isPage) cs)"

definition delivered_bytes :: "iterable_state \<Rightarrow> uint8Array" where
  "delivered_bytes st =
     concat (map (\<lambda>r. case r of Inl e \<Rightarrow> [] | Inr v \<Rightarrow> value_bytes v) (delivered st))"

definition account ::
  "(ssrResult \<Rightarrow> chunk \<Rightarrow> uint8Array) \<Rightarrow> ssrResult \<Rightarrow> bool \<Rightarrow> iterable_state \<Rightarrow> uint8Array" where
  "account f result isPage st =
     delivered_bytes st @ concat (buffer st)
     @ (case task st of
          Running cs oc \<Rightarrow> pending_bytes f result isPage (renderedFirstPageChunk st) cs
        | Finished \<Rightarrow> [])"

lemma pending_bytes_seen:
  "seen \<or> \<not> isPage \<Longrightarrow>
   pending_bytes f result isPage seen cs = concat (map (f result) (before_response cs))"
  by (induction cs arbitrary: seen) (auto simp: before_response_def)

lemma encode_Nil: "encode '''' = []"
  by (simp add: encode_def)

lemma pending_bytes_first:
  "pending_bytes f result isPage False cs =
     encode (doctype_for result isPage cs) @ concat (map (f result) (before_response cs))"
proof (cases cs)
  case Nil
  then show ?thesis by (simp add: doctype_for_def encode_Nil before_response_def)
next
  case (Cons c cs')
  have "pending_bytes f result isPage isPage cs' = concat (map (f result) (before_response cs'))"
    by (rule pending_bytes_seen) simp
  then show ?thesis using Cons
    by (simp add: doctype_for_Cons encode_Nil before_response_def)
qed

lemma iterable_write_account:
  assumes "iterable_write f result isPage st c = (st', r)"
  shows "concat (buffer st') =
           concat (buffer st)
           @ (if isPage \<and> \<not> renderedFirstPageChunk st \<and> needs_doctype result c
              then encode (doctype result) else [])
           @ (if instanceof_Response c then [] else f result c)"
    and "renderedFirstPageChunk st' = (renderedFirstPageChunk st \<or> isPage)"
    and "delivered st' = delivered st"
    and "r = (if instanceof_Response c then Some (AstroError ResponseSentError None) else None)"
  using assms
  by (auto simp: iterable_write_def Let_def next_renew_def next_resolve_def split: if_splits)

lemma render_step_account:
  assumes "render_step f result isPage st = Some st'"
  shows "account f result isPage st' = account f result isPage st"
proof (cases "task st")
  case Finished
  with assms show ?thesis by (simp add: render_step_def)
next
  case (Running cs oc)
  show ?thesis
  proof (cases cs)
    case Nil
    with Running assms show ?thesis
      by (cases oc) (auto simp: render_step_def account_def next_resolve_def delivered_bytes_def)
  next
    case (Cons c cs')
    obtain st1 r where w: "iterable_write f result isPage st c = (st1, r)"
      by (cases "iterable_write f result isPage st c")
    note facts = iterable_write_account [OF w]
    show ?thesis
    proof (cases "instanceof_Response c")
      case True
      with facts(4) have "st' = st1\<lparr>task := Running [] (Rejects (AstroError ResponseSentError None))\<rparr>"
        using assms Running Cons w by (simp add: render_step_def)
      then show ?thesis using facts True Running Cons
        by (simp add: account_def delivered_bytes_def)
    next
      case False
      with facts(4) have "st' = st1\<lparr>task := Running cs' oc\<rparr>"
        using assms Running Cons w by (simp add: render_step_def)
      then show ?thesis using facts False Running Cons
        by (simp add: account_def delivered_bytes_def)
    qed
  qed
qed

lemma next_resume_account:
  assumes "next_resume st = Some st'"
  shows "account f result isPage st' = account f result isPage st"
proof (cases "error st")
  case None
  from assms iterator_next_body_merged [OF None] show ?thesis
    by (auto simp: next_resume_def account_def delivered_bytes_def
        split: list.splits if_splits render_task.splits)
next
  case (Some e)
  from assms iterator_next_body_error [OF Some] show ?thesis
    by (auto simp: next_resume_def account_def delivered_bytes_def
        split: list.splits if_splits render_task.splits)
qed

lemma step_account:
  "step f result isPage st a = Some st' \<Longrightarrow> account f result isPage st' = account f result isPage st"
proof (cases a)
  case RenderStep
  assume "step f result isPage st a = Some st'"
  with RenderStep show ?thesis by (simp add: render_step_account)
next
  case NextCall
  assume "step f result isPage st a = Some st'"
  with NextCall show ?thesis
    by (auto simp: next_call_def account_def delivered_bytes_def split: render_task.splits)
next
  case NextResume
  assume "step f result isPage st a = Some st'"
  with NextResume show ?thesis by (simp add: next_resume_account)
qed

lemma run_account:
  "run f result isPage st sched = Some st' \<Longrightarrow>
   account f result isPage st' = account f result isPage st"
proof (induction sched arbitrary: st)
  case Nil
  then show ?case by simp
next
  case (Cons a sched)
  then show ?case
    by (auto split: option.splits dest: step_account)
qed

subsection \<open>The promise store\<close>

text \<open>
  The variable \<^verbatim>\<open>next\<close> always holds the newest promise, every older promise is
  resolved, a suspended call awaits a promise that exists, and once the handler of
  \<^verbatim>\<open>renderPromise\<close> has run the newest promise is resolved too.
\<close>

definition wf_promises :: "iterable_state \<Rightarrow> bool" where
  "wf_promises st =
     (length (promises st) = Suc (next st)
      \<and> list_all (\<lambda>b. b) (take (next st) (promises st))
      \<and> list_all (\<lambda>p. p \<le> next st) (awaiting st)
      \<and> (task st = Finished \<longrightarrow> promises st ! next st))"

lemma update_last: "length ps = Suc n \<Longrightarrow> ps[n := v] = take n ps @ [v]"
  by (simp add: upd_conv_take_nth_drop)

lemma iterable_write_promises:
  assumes "iterable_write f result isPage st c = (st', r)"
  shows "(promises st' = promises st \<and> next st' = next st)
       \<or> (promises st' = (promises st)[next st := True] @ [False]
           \<and> next st' = length (promises st))"
    and "awaiting st' = awaiting st" and "task st' = task st" and "error st' = error st"
  using assms
  by (auto simp: iterable_write_def Let_def next_renew_def next_resolve_def split: if_splits)

lemma iterable_write_wf:
  assumes w: "iterable_write f result isPage st c = (st', r)" and wf: "wf_promises st"
  shows "wf_promises (st'\<lparr>task := Running cs oc\<rparr>)"
proof -
  have len: "length (promises st) = Suc (next st)"
    and old: "list_all (\<lambda>b. b) (take (next st) (promises st))"
    and aw: "list_all (\<lambda>p. p \<le> next st) (awaiting st)"
    using wf by (simp_all add: wf_promises_def)
  from len obtain pre x where ps: "promises st = pre @ [x]" and pre: "next st = length pre"
    by (cases "promises st" rule: rev_cases) auto
  from old ps pre have all_pre: "list_all (\<lambda>b. b) pre" by simp
  note facts = iterable_write_promises [OF w]
  from facts(1) show ?thesis
  proof
    assume "promises st' = promises st \<and> next st' = next st"
    then show ?thesis using len old aw facts(2) by (simp add: wf_promises_def)
  next
    assume "promises st' = (promises st)[next st := True] @ [False]
      \<and> next st' = length (promises st)"
    then have p': "promises st' = pre @ [True, False]" and n': "next st' = Suc (length pre)"
      using ps pre by simp_all
    have "list_all (\<lambda>p. p \<le> Suc (length pre)) (awaiting st)"
      using aw pre by (auto simp: list_all_iff)
    then show ?thesis using p' n' all_pre facts(2)
      by (simp add: wf_promises_def)
  qed
qed

lemma render_step_wf:
  assumes "render_step f result isPage st = Some st'" and wf: "wf_promises st"
  shows "wf_promises st'"
proof (cases "task st")
  case Finished
  with assms show ?thesis by (simp add: render_step_def)
next
  case (Running cs oc)
  show ?thesis
  proof (cases cs)
    case Nil
    have "next st < length (promises st)" using wf by (simp add: wf_promises_def)
    with Nil Running assms show ?thesis
      by (cases oc) (auto simp: render_step_def wf_promises_def next_resolve_def)
  next
    case (Cons c cs')
    obtain st1 r where w: "iterable_write f result isPage st c = (st1, r)"
      by (cases "iterable_write f result isPage st c")
    from assms(1) Running Cons w
    have "st' = st1\<lparr>task := Running cs' oc\<rparr> \<or> (\<exists>e. st' = st1\<lparr>task := Running [] (Rejects e)\<rparr>)"
      by (auto simp: render_step_def split: option.splits)
    then show ?thesis using iterable_write_wf [OF w wf] by auto
  qed
qed

lemma iterator_next_body_promises:
  assumes "iterator_next_body st = (r, st')"
  shows "promises st' = promises st" and "next st' = next st" and "task st' = task st"
    and "awaiting st' = awaiting st" and "error st' = error st"
    and "renderedFirstPageChunk st' = renderedFirstPageChunk st"
  using assms
  by (auto simp: iterator_next_body_def Let_def split: option.splits)

lemma next_resume_wf:
  assumes "next_resume st = Some st'" and wf: "wf_promises st"
  shows "wf_promises st'"
proof -
  obtain p ps where aw: "awaiting st = p # ps"
    using assms(1) by (cases "awaiting st") (auto simp: next_resume_def)
  obtain r st1 where b: "iterator_next_body st = (r, st1)"
    by (cases "iterator_next_body st")
  from assms(1) aw b have st': "st' = st1\<lparr>awaiting := ps, delivered := delivered st1 @ [r]\<rparr>"
    by (auto simp: next_resume_def split: if_splits)
  show ?thesis
    using wf aw iterator_next_body_promises [OF b]
    by (simp add: st' wf_promises_def)
qed

lemma step_wf:
  "step f result isPage st a = Some st' \<Longrightarrow> wf_promises st \<Longrightarrow> wf_promises st'"
proof (cases a)
  case RenderStep
  assume "step f result isPage st a = Some st'" "wf_promises st"
  with RenderStep show ?thesis by (simp add: render_step_wf)
next
  case NextCall
  assume "step f result isPage st a = Some st'" "wf_promises st"
  with NextCall show ?thesis by (auto simp: next_call_def wf_promises_def)
next
  case NextResume
  assume "step f result isPage st a = Some st'" "wf_promises st"
  with NextResume show ?thesis by (simp add: next_resume_wf)
qed

lemma run_wf:
  "run f result isPage st sched = Some st' \<Longrightarrow> wf_promises st \<Longrightarrow> wf_promises st'"
proof (induction sched arbitrary: st)
  case Nil
  then show ?case by simp
next
  case (Cons a sched)
  then show ?case by (auto split: option.splits dest: step_wf)
qed

lemma finished_all_resolved:
  assumes "wf_promises st" and "task st = Finished" and "p \<in> set (awaiting st)"
  shows "is_resolved st p"
proof -
  from assms have le: "p \<le> next st" and len: "length (promises st) = Suc (next st)"
    and old: "list_all (\<lambda>b. b) (take (next st) (promises st))" and cur: "promises st ! next st"
    by (auto simp: wf_promises_def list_all_iff)
  show ?thesis
  proof (cases "p = next st")
    case True
    then show ?thesis using cur len by (simp add: is_resolved_def)
  next
    case False
    with le have lt: "p < next st" by simp
    then have "take (next st) (promises st) ! p = promises st ! p" by simp
    moreover have "take (next st) (promises st) ! p"
      using old lt len by (simp add: list_all_length)
    ultimately show ?thesis using lt len by (simp add: is_resolved_def)
  qed
qed

subsection \<open>The loop of the head propagator\<close>

text \<open>
  The head fragments that the initializers of a list of instances give, in the order of
  the list.
\<close>

definition init_head :: "propagator \<Rightarrow> string list" where
  "init_head p =
     (case init p of
        Inl e \<Rightarrow> []
      | Inr returnValue \<Rightarrow> if isHeadAndContent returnValue then [head returnValue] else [])"

definition heads_of :: "propagator list \<Rightarrow> string list" where
  "heads_of ps = concat (map init_head ps)"

definition init_resolves :: "propagator \<Rightarrow> bool" where
  "init_resolves p = (case init p of Inl e \<Rightarrow> False | Inr returnValue \<Rightarrow> True)"

lemma propagators_add_distinct:
  "distinct (map instance_id ps) \<Longrightarrow> distinct (map instance_id (propagators_add p ps))"
  by (auto simp: propagators_add_def)

lemma fold_propagators_add_distinct:
  "distinct (map instance_id ps) \<Longrightarrow> distinct (map instance_id (fold propagators_add new ps))"
  by (induction new arbitrary: ps) (auto simp: propagators_add_distinct)

lemma fold_propagators_add_prefix: "\<exists>ys. fold propagators_add new ps = ps @ ys"
  using fold_propagators_add_grows by blast

lemma bufferHeadLoop_step:
  assumes "i < length (propagators (metadata result))"
    and "init (propagators (metadata result) ! i) = Inr returnValue"
  shows "bufferHeadLoop i result =
     bufferHeadLoop (i + 1)
       (push_head returnValue
          (register_all (registers (propagators (metadata result) ! i)) result))"
  using assms by (subst bufferHeadLoop.simps) simp

lemma bufferHeadLoop_reject:
  assumes "i < length (propagators (metadata result))"
    and "init (propagators (metadata result) ! i) = Inl e"
  shows "bufferHeadLoop i result = Inl e"
  using assms by (subst bufferHeadLoop.simps) simp

lemma bufferHeadLoop_done:
  "length (propagators (metadata result)) \<le> i \<Longrightarrow> bufferHeadLoop i result = Inr result"
  by (subst bufferHeadLoop.simps) simp

lemma bufferHeadLoop_invariant:
  "bufferHeadLoop i result = Inr result' \<Longrightarrow>
   (\<exists>zs. propagators (metadata result') = propagators (metadata result) @ zs)
   \<and> extraHead (metadata result')
       = extraHead (metadata result) @ heads_of (drop i (propagators (metadata result')))
   \<and> list_all init_resolves (drop i (propagators (metadata result')))
   \<and> partial result' = partial result \<and> compressHTML result' = compressHTML result
   \<and> (distinct (map instance_id (propagators (metadata result)))
        \<longrightarrow> distinct (map instance_id (propagators (metadata result'))))"
proof (induction i result rule: bufferHeadLoop.induct)
  case (1 i result)
  let ?ps = "propagators (metadata result)"
  show ?case
  proof (cases "length ?ps \<le> i")
    case True
    with "1.prems" have "result' = result" by (simp add: bufferHeadLoop_done)
    with True show ?thesis by (simp add: heads_of_def)
  next
    case False
    then have i: "i < length ?ps" by simp
    let ?inst = "?ps ! i"
    show ?thesis
    proof (cases "init ?inst")
      case (Inl e)
      with "1.prems" i show ?thesis by (simp add: bufferHeadLoop_reject)
    next
      case (Inr returnValue)
      let ?r1 = "push_head returnValue (register_all (registers ?inst) result)"
      have next_run: "bufferHeadLoop (i + 1) ?r1 = Inr result'"
        using "1.prems" bufferHeadLoop_step [OF i Inr] by simp
      note IH = "1.IH" [OF False refl Inr next_run]
      obtain ys where ys: "fold propagators_add (registers ?inst) ?ps = ?ps @ ys"
        using fold_propagators_add_prefix by blast
      have ps1: "propagators (metadata ?r1) = ?ps @ ys"
        using ys by (simp add: push_head_def register_all_def)
      have eh1: "extraHead (metadata ?r1) = extraHead (metadata result) @ init_head ?inst"
        using Inr by (simp add: push_head_def register_all_def init_head_def)
      from IH obtain zs where zs: "propagators (metadata result') = (?ps @ ys) @ zs"
        using ps1 by auto
      let ?ps' = "propagators (metadata result')"
      have nth: "?ps' ! i = ?inst" using zs i by (simp add: nth_append)
      have "i < length ?ps'" using zs i by simp
      then have "drop i ?ps' = ?ps' ! i # drop (Suc i) ?ps'"
        by (rule Cons_nth_drop_Suc [symmetric])
      then have dr: "drop i ?ps' = ?inst # drop (i + 1) ?ps'"
        using nth by simp
      have "extraHead (metadata result')
          = extraHead (metadata result) @ heads_of (drop i ?ps')"
      proof -
        from IH have "extraHead (metadata result')
            = extraHead (metadata ?r1) @ heads_of (drop (i + 1) ?ps')" by blast
        then show ?thesis using eh1 dr by (simp add: heads_of_def)
      qed
      moreover have "list_all init_resolves (drop i ?ps')"
      proof -
        from IH have "list_all init_resolves (drop (i + 1) ?ps')" by blast
        moreover have "init_resolves ?inst" using Inr by (simp add: init_resolves_def)
        ultimately show ?thesis using dr by simp
      qed
      moreover have "partial result' = partial result \<and> compressHTML result' = compressHTML result"
      proof -
        from IH have "partial result' = partial ?r1 \<and> compressHTML result' = compressHTML ?r1"
          by blast
        then show ?thesis by (simp add: push_head_def register_all_def)
      qed
      moreover have "distinct (map instance_id ?ps) \<longrightarrow> distinct (map instance_id ?ps')"
      proof
        assume "distinct (map instance_id ?ps)"
        then have "distinct (map instance_id (propagators (metadata ?r1)))"
          using fold_propagators_add_distinct [of ?ps "registers ?inst"]
          by (simp add: push_head_def register_all_def)
        with IH show "distinct (map instance_id ?ps')" by blast
      qed
      moreover have "\<exists>zs. ?ps' = ?ps @ zs" using zs by simp
      ultimately show ?thesis by blast
    qed
  qed
qed

lemma bufferHeadContent_facts:
  assumes "bufferHeadContent result = Inr result'"
  shows "\<exists>zs. propagators (metadata result') = propagators (metadata result) @ zs"
    and "extraHead (metadata result')
       = extraHead (metadata result) @ heads_of (propagators (metadata result'))"
    and "list_all init_resolves (propagators (metadata result'))"
    and "partial result' = partial result" and "compressHTML result' = compressHTML result"
    and "distinct (map instance_id (propagators (metadata result)))
        \<Longrightarrow> distinct (map instance_id (propagators (metadata result')))"
  using bufferHeadLoop_invariant [of 0 result result'] assms
  by (simp_all add: bufferHeadContent_def)

section \<open>Facts about the adapters\<close>

lemma doctype_for_not_page: "\<not> isPage \<Longrightarrow> doctype_for result isPage cs = ''''"
  by (simp add: doctype_for_def split: list.splits)

lemma doctype_unit_not_page: "\<not> isPage \<Longrightarrow> doctype_unit result isPage cs = []"
  by (simp add: doctype_unit_def doctype_for_not_page)

lemma doctype_for_context:
  "partial result' = partial result \<Longrightarrow> compressHTML result' = compressHTML result \<Longrightarrow>
   doctype_for result' isPage cs = doctype_for result isPage cs"
  by (simp add: doctype_for_def split: list.splits)

lemma concat_doctype_unit:
  "concat (doctype_unit result isPage cs) = encode (doctype_for result isPage cs)"
  by (simp add: doctype_unit_def encode_Nil)

lemma string_render_fresh:
  assumes "\<not> renderedFirstPageChunk st"
  shows "render_chunks (string_destination f result isPage) cs oc st =
     (st\<lparr>renderedFirstPageChunk := (isPage \<and> cs \<noteq> []),
         str := str st @ doctype_for result isPage cs
                  @ concat (map (f result) (non_responses cs))\<rparr>, oc)"
proof (cases isPage)
  case True
  then show ?thesis using string_render_first [OF True assms] by simp
next
  case False
  then have "\<not> isPage \<or> renderedFirstPageChunk st" by simp
  from string_render_seen [OF this] show ?thesis
    using False assms by (simp add: doctype_for_not_page)
qed

lemma stream_render_fresh:
  assumes "\<not> renderedFirstPageChunk st"
  shows "render_chunks (stream_write g result isPage) cs oc st =
     (st\<lparr>renderedFirstPageChunk := (isPage \<and> cs \<noteq> []),
         enqueued := enqueued st @ doctype_unit result isPage cs
                       @ map (g result) (before_response cs)\<rparr>, settles cs oc)"
proof (cases isPage)
  case True
  then show ?thesis using stream_render_first [OF True assms] by simp
next
  case False
  then have "\<not> isPage \<or> renderedFirstPageChunk st" by simp
  from stream_render_seen [OF this] show ?thesis
    using False assms by (simp add: doctype_unit_not_page)
qed

lemma renderToString_template:
  assumes "callComponentAsTemplateResultOrResponse result componentFactory props children rt
             = Inr (IsTemplate t)"
  shows "renderToString f result componentFactory props children isPage rt =
     (case outcome t of
        Rejects e \<Rightarrow> Inl e
      | Resolves \<Rightarrow>
          Inr (result, Returns (doctype_for result isPage (writes t)
                 @ concat (map (f result) (non_responses (writes t))))))"
  using assms
  by (simp add: renderToString_def render_def string_render_fresh string_initial_def
      split: render_outcome.splits)

lemma renderToReadableStream_template:
  assumes "callComponentAsTemplateResultOrResponse result componentFactory props children rt
             = Inr (IsTemplate t)"
  shows "renderToReadableStream g result componentFactory props children isPage rt =
     (case (if isPage then bufferHeadContent result else Inr result) of
        Inl e \<Rightarrow> Inl e
      | Inr result' \<Rightarrow> Inr (result', Returns (stream_task g result' isPage rt t stream_initial)))"
  using assms by (simp add: renderToReadableStream_def)

lemma renderToAsyncIterable_template:
  assumes "callComponentAsTemplateResultOrResponse result componentFactory props children rt
             = Inr (IsTemplate t)"
  shows "renderToAsyncIterable result componentFactory props children isPage rt =
     (case (if isPage then bufferHeadContent result else Inr result) of
        Inl e \<Rightarrow> Inl e
      | Inr result' \<Rightarrow> Inr (result', Returns (iterable_initial t)))"
  using assms by (simp add: renderToAsyncIterable_def)

lemma head_pass_context:
  assumes "(if isPage then bufferHeadContent result else Inr result) = Inr result'"
  shows "partial result' = partial result" and "compressHTML result' = compressHTML result"
  using assms bufferHeadContent_facts(4,5) [of result result']
  by (auto split: if_splits)

lemma stream_task_enqueued:
  "enqueued (stream_task g result isPage rt t stream_initial) =
     doctype_unit result isPage (writes t) @ map (g result) (before_response (writes t))"
  by (cases "settles (writes t) (outcome t)")
     (simp_all add: stream_task_def render_def stream_render_fresh stream_initial_def Let_def)

lemma account_iterable_initial:
  "account g result isPage (iterable_initial t) =
     encode (doctype_for result isPage (writes t))
     @ concat (map (g result) (before_response (writes t)))"
  by (simp add: account_def iterable_initial_def delivered_bytes_def pending_bytes_first)

lemma run_iterable_initial:
  assumes "run g result isPage (iterable_initial t) sched = Some st"
  shows "account g result isPage st =
     encode (doctype_for result isPage (writes t))
     @ concat (map (g result) (before_response (writes t)))"
  using run_account [OF assms] by (simp add: account_iterable_initial)

lemma account_Finished:
  "task st = Finished \<Longrightarrow> account g result isPage st = delivered_bytes st @ concat (buffer st)"
  by (simp add: account_def)

subsection \<open>After the render task has finished\<close>

lemma wf_promises_initial: "wf_promises (iterable_initial t)"
  by (simp add: wf_promises_def iterable_initial_def)

lemma next_call_fields:
  "error (next_call st) = error st" "buffer (next_call st) = buffer st"
  "task (next_call st) = task st" "delivered (next_call st) = delivered st"
  "next (next_call st) = next st" "promises (next_call st) = promises st"
  by (simp_all add: next_call_def)

lemma next_call_wf: "wf_promises st \<Longrightarrow> wf_promises (next_call st)"
  by (auto simp: next_call_def wf_promises_def)

text \<open>Once the render task has finished, a call of \<^verbatim>\<open>next()\<close> never stays suspended.\<close>

lemma pull_after_finish:
  assumes wf: "wf_promises st" and fin: "task st = Finished"
  obtains r st1 ps where "iterator_next_body (next_call st) = (r, st1)"
    and "next_resume (next_call st) = Some (st1\<lparr>awaiting := ps, delivered := delivered st1 @ [r]\<rparr>)"
proof -
  let ?c = "next_call st"
  obtain p ps where aw: "awaiting ?c = p # ps"
    by (cases "awaiting ?c") (simp_all add: next_call_def)
  then have "p \<in> set (awaiting ?c)" by simp
  then have res: "is_resolved ?c p"
    using finished_all_resolved [OF next_call_wf [OF wf]] fin by (simp add: next_call_fields)
  obtain r st1 where b: "iterator_next_body ?c = (r, st1)"
    by (cases "iterator_next_body ?c")
  have "next_resume ?c = Some (st1\<lparr>awaiting := ps, delivered := delivered st1 @ [r]\<rparr>)"
    using aw res b by (simp add: next_resume_def)
  with b that show thesis by blast
qed

lemma pull_after_failure:
  assumes wf: "wf_promises st" and fin: "task st = Finished" and err: "error st = Some e"
  shows "\<exists>st'. next_resume (next_call st) = Some st' \<and> delivered st' = delivered st @ [Inl e]"
proof -
  obtain r st1 ps where b: "iterator_next_body (next_call st) = (r, st1)"
    and n: "next_resume (next_call st)
        = Some (st1\<lparr>awaiting := ps, delivered := delivered st1 @ [r]\<rparr>)"
    using pull_after_finish [OF wf fin] by blast
  have "error (next_call st) = Some e" using err by (simp add: next_call_fields)
  from iterator_next_body_error [OF this] b have "r = Inl e" "st1 = next_call st" by simp_all
  with n show ?thesis by (simp add: next_call_fields)
qed

lemma step_after_failure:
  assumes "task st = Finished" and "error st = Some e"
    and "step g result isPage st a = Some st'"
  shows "task st' = Finished \<and> error st' = Some e \<and> next st' = next st
       \<and> promises st' = promises st
       \<and> (delivered st' = delivered st \<or> delivered st' = delivered st @ [Inl e])"
proof (cases a)
  case RenderStep
  with assms show ?thesis by (simp add: render_step_def)
next
  case NextCall
  with assms show ?thesis by (auto simp: next_call_def)
next
  case NextResume
  with assms have n: "next_resume st = Some st'" by simp
  then obtain p ps where aw: "awaiting st = p # ps"
    by (cases "awaiting st") (auto simp: next_resume_def)
  from n aw iterator_next_body_error [OF assms(2)]
  have "st' = st\<lparr>awaiting := ps, delivered := delivered st @ [Inl e]\<rparr>"
    by (auto simp: next_resume_def split: if_splits)
  with assms show ?thesis by simp
qed

lemma run_after_failure:
  "run g result isPage st sched = Some st' \<Longrightarrow> task st = Finished \<Longrightarrow> error st = Some e \<Longrightarrow>
   task st' = Finished \<and> error st' = Some e \<and> next st' = next st
   \<and> promises st' = promises st
   \<and> (\<exists>k. delivered st' = delivered st @ replicate k (Inl e))"
proof (induction sched arbitrary: st)
  case Nil
  then show ?case by simp
next
  case (Cons a sched)
  from Cons.prems(1) obtain st1 where s1: "step g result isPage st a = Some st1"
    and r1: "run g result isPage st1 sched = Some st'"
    by (auto split: option.splits)
  note f1 = step_after_failure [OF Cons.prems(2,3) s1]
  from f1 have fin1: "task st1 = Finished" and err1: "error st1 = Some e" by simp_all
  note IH = Cons.IH [OF r1 fin1 err1]
  from IH obtain k where k: "delivered st' = delivered st1 @ replicate k (Inl e)" by blast
  from f1 have "delivered st1 = delivered st \<or> delivered st1 = delivered st @ [Inl e]" by simp
  then have "\<exists>k. delivered st' = delivered st @ replicate k (Inl e)"
  proof
    assume "delivered st1 = delivered st"
    with k show ?thesis by auto
  next
    assume "delivered st1 = delivered st @ [Inl e]"
    with k have "delivered st' = delivered st @ replicate (Suc k) (Inl e)" by simp
    then show ?thesis by blast
  qed
  with IH f1 show ?case by simp
qed

lemma record_failure:
  assumes wf: "wf_promises st" and t: "task st = Running [] (Rejects e)"
  shows "\<exists>st1. render_step g result isPage st = Some st1 \<and> task st1 = Finished
       \<and> error st1 = Some e \<and> is_resolved st1 (next st1) \<and> delivered st1 = delivered st
       \<and> buffer st1 = buffer st"
proof -
  have "next st < length (promises st)" using wf by (simp add: wf_promises_def)
  then show ?thesis using t
    by (simp add: render_step_def next_resolve_def is_resolved_def)
qed

subsection \<open>Renders that succeed\<close>

text \<open>
  A render without response chunks that resolves never records an error, and no call of
  \<^verbatim>\<open>next()\<close> throws.
\<close>

definition clean_run :: "iterable_state \<Rightarrow> bool" where
  "clean_run st =
     (error st = None
      \<and> list_all (\<lambda>r. \<not> isl r) (delivered st)
      \<and> (case task st of
           Running cs oc \<Rightarrow> oc = Resolves \<and> list_all (\<lambda>c. \<not> instanceof_Response c) cs
         | Finished \<Rightarrow> True))"

lemma render_step_clean:
  assumes "render_step g result isPage st = Some st'" and c: "clean_run st"
  shows "clean_run st'"
proof (cases "task st")
  case Finished
  with assms show ?thesis by (simp add: render_step_def)
next
  case (Running cs oc)
  with c have oc: "oc = Resolves" and cs: "list_all (\<lambda>c. \<not> instanceof_Response c) cs"
    and e: "error st = None" and d: "list_all (\<lambda>r. \<not> isl r) (delivered st)"
    by (simp_all add: clean_run_def)
  show ?thesis
  proof (cases cs)
    case Nil
    with Running oc assms(1) have "st' = (next_resolve st)\<lparr>task := Finished\<rparr>"
      by (simp add: render_step_def)
    then show ?thesis using e d by (simp add: clean_run_def next_resolve_def)
  next
    case (Cons chunk chunks)
    obtain st1 r where w: "iterable_write g result isPage st chunk = (st1, r)"
      by (cases "iterable_write g result isPage st chunk")
    from cs Cons have nr: "\<not> instanceof_Response chunk"
      and rest: "list_all (\<lambda>c. \<not> instanceof_Response c) chunks" by simp_all
    from iterable_write_account(4) [OF w] nr have "r = None" by simp
    with assms(1) Running Cons w have st': "st' = st1\<lparr>task := Running chunks oc\<rparr>"
      by (simp add: render_step_def)
    show ?thesis
      using iterable_write_promises(4) [OF w] iterable_write_account(3) [OF w] e d oc rest
      by (simp add: st' clean_run_def)
  qed
qed

lemma next_resume_clean:
  assumes "next_resume st = Some st'" and c: "clean_run st"
  shows "clean_run st'"
proof -
  from c have e: "error st = None" by (simp add: clean_run_def)
  obtain p ps where aw: "awaiting st = p # ps"
    using assms(1) by (cases "awaiting st") (auto simp: next_resume_def)
  from assms(1) aw iterator_next_body_merged [OF e]
  have "st' = st\<lparr>buffer := [], awaiting := ps,
      delivered := delivered st @ [Inr \<lparr>done_flag = (concat (buffer st) = []),
        value_bytes = concat (buffer st)\<rparr>]\<rparr>"
    by (auto simp: next_resume_def split: if_splits)
  then show ?thesis using c by (simp add: clean_run_def)
qed

lemma step_clean:
  "step g result isPage st a = Some st' \<Longrightarrow> clean_run st \<Longrightarrow> clean_run st'"
proof (cases a)
  case RenderStep
  assume "step g result isPage st a = Some st'" "clean_run st"
  with RenderStep show ?thesis by (simp add: render_step_clean)
next
  case NextCall
  assume "step g result isPage st a = Some st'" "clean_run st"
  with NextCall show ?thesis by (auto simp: next_call_def clean_run_def)
next
  case NextResume
  assume "step g result isPage st a = Some st'" "clean_run st"
  with NextResume show ?thesis by (simp add: next_resume_clean)
qed

lemma run_clean:
  "run g result isPage st sched = Some st' \<Longrightarrow> clean_run st \<Longrightarrow> clean_run st'"
proof (induction sched arbitrary: st)
  case Nil
  then show ?case by simp
next
  case (Cons a sched)
  then show ?case by (auto split: option.splits dest: step_clean)
qed

lemma clean_run_initial:
  "list_all (\<lambda>c. \<not> instanceof_Response c) (writes t) \<Longrightarrow> outcome t = Resolves \<Longrightarrow>
   clean_run (iterable_initial t)"
  by (simp add: clean_run_def iterable_initial_def)

lemma pull_after_success:
  assumes wf: "wf_promises st" and fin: "task st = Finished" and c: "clean_run st"
  shows "\<exists>st'. next_resume (next_call st) = Some st'
       \<and> delivered st' = delivered st @ [Inr \<lparr>done_flag = (concat (buffer st) = []),
                                               value_bytes = concat (buffer st)\<rparr>]
       \<and> buffer st' = [] \<and> task st' = Finished \<and> clean_run st' \<and> wf_promises st'"
proof -
  obtain r st1 ps where b: "iterator_next_body (next_call st) = (r, st1)"
    and n: "next_resume (next_call st)
        = Some (st1\<lparr>awaiting := ps, delivered := delivered st1 @ [r]\<rparr>)"
    using pull_after_finish [OF wf fin] by blast
  let ?st' = "st1\<lparr>awaiting := ps, delivered := delivered st1 @ [r]\<rparr>"
  have "error (next_call st) = None" using c by (simp add: clean_run_def next_call_fields)
  from iterator_next_body_merged [OF this] b
  have r: "r = Inr \<lparr>done_flag = (concat (buffer st) = []), value_bytes = concat (buffer st)\<rparr>"
    and st1: "st1 = (next_call st)\<lparr>buffer := []\<rparr>"
    by (simp_all add: next_call_fields)
  have "clean_run ?st'"
    using next_resume_clean [OF n] c by (simp add: clean_run_def next_call_fields)
  moreover have "wf_promises ?st'"
    using next_resume_wf [OF n next_call_wf [OF wf]] .
  moreover have "delivered ?st' = delivered st @ [r]" "buffer ?st' = []" "task ?st' = Finished"
    using fin by (simp_all add: st1 next_call_fields)
  ultimately show ?thesis using n r by simp
qed

lemma delivered_bytes_snoc:
  "delivered st' = delivered st @ [Inr v] \<Longrightarrow>
   delivered_bytes st' = delivered_bytes st @ value_bytes v"
  by (simp add: delivered_bytes_def)

lemma length_encode: "length (encode s) = length s"
  by (simp add: encode_def)

lemma before_response_all:
  "list_all (\<lambda>c. \<not> instanceof_Response c) cs \<Longrightarrow> before_response cs = cs"
  by (simp add: before_response_def list_all_iff)

lemma settles_all:
  "list_all (\<lambda>c. \<not> instanceof_Response c) cs \<Longrightarrow> settles cs oc = oc"
  by (simp add: settles_def)

lemma length_concat_map:
  "length (concat (map f cs)) = sum_list (map (\<lambda>c. length (f c)) cs)"
  by (induction cs) auto

lemma stream_task_closed:
  "settles (writes t) (outcome t) = Resolves \<Longrightarrow>
   closed (stream_task g result isPage rt t stream_initial)
   \<and> timeouts (stream_task g result isPage rt t stream_initial) = []
   \<and> errored (stream_task g result isPage rt t stream_initial) = None"
  by (simp add: stream_task_def render_def stream_render_fresh stream_initial_def)

subsection \<open>How the Stream Adapter settles\<close>

text \<open>
  The error that the Stream Adapter reports for a failure \<open>e\<close> of the render: an
  \<^verbatim>\<open>AstroError\<close> without a location gets \<^verbatim>\<open>{file: route?.component}\<close>, any other
  error is reported as it is.
\<close>

definition surfaced :: "routeData option \<Rightarrow> error \<Rightarrow> error" where
  "surfaced rt e =
     (case e of
        AstroError d None \<Rightarrow> AstroError d (Some \<lparr>loc_file = map_option component rt\<rparr>)
      | AstroError d (Some l) \<Rightarrow> AstroError d (Some l)
      | OtherError m \<Rightarrow> OtherError m)"

lemma surfaced_eq:
  "(if AstroError_is e \<and> loc e = None
    then setLocation \<lparr>loc_file = map_option component rt\<rparr> e else e) = surfaced rt e"
  by (cases e) (auto simp: surfaced_def split: option.splits)

lemma stream_task_settled:
  "stream_task g result isPage rt t stream_initial =
     (let st = stream_initial\<lparr>renderedFirstPageChunk := (isPage \<and> writes t \<noteq> []),
                 enqueued := doctype_unit result isPage (writes t)
                               @ map (g result) (before_response (writes t))\<rparr>
      in case settles (writes t) (outcome t) of
           Resolves \<Rightarrow> st\<lparr>closed := True\<rparr>
         | Rejects e \<Rightarrow> st\<lparr>timeouts := [surfaced rt e]\<rparr>)"
  by (cases "settles (writes t) (outcome t)")
    (simp_all add: stream_task_def render_def stream_render_fresh stream_initial_def Let_def
      surfaced_eq)

subsection \<open>What the handler of the render promise records\<close>

text \<open>
  The error that the handler of \<^verbatim>\<open>renderPromise\<close> records is the failure of the
  render, and nothing is recorded before.
\<close>

definition recorded :: "render_outcome \<Rightarrow> error option" where
  "recorded oc = (case oc of Resolves \<Rightarrow> None | Rejects e \<Rightarrow> Some e)"

definition on_course :: "render_outcome \<Rightarrow> iterable_state \<Rightarrow> bool" where
  "on_course verdict st =
     (case task st of
        Running cs oc \<Rightarrow> error st = None \<and> settles cs oc = verdict
      | Finished \<Rightarrow> error st = recorded verdict)"

lemma settles_Nil: "settles [] oc = oc"
  by (simp add: settles_def)

lemma settles_Cons:
  "settles (c # cs) oc =
     (if instanceof_Response c then Rejects (AstroError ResponseSentError None)
      else settles cs oc)"
  by (simp add: settles_def)

lemma render_step_on_course:
  assumes "render_step g result isPage st = Some st'" and c: "on_course verdict st"
  shows "on_course verdict st'"
proof (cases "task st")
  case Finished
  with assms show ?thesis by (simp add: render_step_def)
next
  case (Running cs oc)
  with c have e: "error st = None" and v: "settles cs oc = verdict"
    by (simp_all add: on_course_def)
  show ?thesis
  proof (cases cs)
    case Nil
    with v have "oc = verdict" by (simp add: settles_Nil)
    with Nil Running assms(1) e show ?thesis
      by (cases oc) (auto simp: render_step_def on_course_def next_resolve_def recorded_def)
  next
    case (Cons chunk chunks)
    obtain st1 r where w: "iterable_write g result isPage st chunk = (st1, r)"
      by (cases "iterable_write g result isPage st chunk")
    note r = iterable_write_account(4) [OF w]
    have e1: "error st1 = None" using iterable_write_promises(4) [OF w] e by simp
    show ?thesis
    proof (cases "instanceof_Response chunk")
      case True
      with r assms(1) Running Cons w
      have "st' = st1\<lparr>task := Running [] (Rejects (AstroError ResponseSentError None))\<rparr>"
        by (simp add: render_step_def)
      then show ?thesis using e1 v Cons True
        by (simp add: on_course_def settles_Nil settles_Cons)
    next
      case False
      with r assms(1) Running Cons w have "st' = st1\<lparr>task := Running chunks oc\<rparr>"
        by (simp add: render_step_def)
      then show ?thesis using e1 v Cons False
        by (simp add: on_course_def settles_Cons)
    qed
  qed
qed

lemma next_resume_on_course:
  assumes "next_resume st = Some st'" and c: "on_course verdict st"
  shows "on_course verdict st'"
proof -
  obtain p ps where aw: "awaiting st = p # ps"
    using assms(1) by (cases "awaiting st") (auto simp: next_resume_def)
  obtain r st1 where b: "iterator_next_body st = (r, st1)"
    by (cases "iterator_next_body st")
  from assms(1) aw b have "st' = st1\<lparr>awaiting := ps, delivered := delivered st1 @ [r]\<rparr>"
    by (auto simp: next_resume_def split: if_splits)
  then show ?thesis
    using c iterator_next_body_promises(3,5) [OF b]
    by (simp add: on_course_def split: render_task.splits)
qed

lemma step_on_course:
  "step g result isPage st a = Some st' \<Longrightarrow> on_course verdict st \<Longrightarrow> on_course verdict st'"
proof (cases a)
  case RenderStep
  assume "step g result isPage st a = Some st'" "on_course verdict st"
  with RenderStep show ?thesis by (simp add: render_step_on_course)
next
  case NextCall
  assume "step g result isPage st a = Some st'" "on_course verdict st"
  with NextCall show ?thesis
    by (auto simp: next_call_def on_course_def split: render_task.splits)
next
  case NextResume
  assume "step g result isPage st a = Some st'" "on_course verdict st"
  with NextResume show ?thesis by (simp add: next_resume_on_course)
qed

lemma run_on_course:
  "run g result isPage st sched = Some st' \<Longrightarrow> on_course verdict st \<Longrightarrow> on_course verdict st'"
proof (induction sched arbitrary: st)
  case Nil
  then show ?case by simp
next
  case (Cons a sched)
  then show ?case by (auto split: option.splits dest: step_on_course)
qed

lemma run_records_verdict:
  assumes "run g result isPage (iterable_initial t) sched = Some st" and "task st = Finished"
  shows "error st = recorded (settles (writes t) (outcome t))"
proof -
  have "on_course (settles (writes t) (outcome t)) (iterable_initial t)"
    by (simp add: on_course_def iterable_initial_def)
  from run_on_course [OF assms(1) this] assms(2) show ?thesis
    by (simp add: on_course_def)
qed

lemma settles_response:
  "\<not> list_all (\<lambda>c. \<not> instanceof_Response c) cs \<Longrightarrow>
   settles cs oc = Rejects (AstroError ResponseSentError None)"
  by (simp add: settles_def)

lemma write_response:
  "snd (string_destination f result isPage st (ChunkResponse r)) = None"
  "snd (stream_write g result isPage sst (ChunkResponse r))
     = Some (AstroError ResponseSentError None)"
  "snd (iterable_write g result isPage ist (ChunkResponse r))
     = Some (AstroError ResponseSentError None)"
  by (simp_all add: string_destination_def stream_write_def iterable_write_def Let_def)

subsection \<open>A response as the first chunk\<close>

lemma needs_doctype_response: "needs_doctype result (ChunkResponse r) = (\<not> partial result)"
  using response_never_doctype [of r] by (simp add: needs_doctype_def)

lemma doctype_context:
  "compressHTML result' = compressHTML result \<Longrightarrow> doctype result' = doctype result"
  by (simp add: doctype_def)

lemma write_first_response:
  assumes "isPage" and "\<not> partial result"
  shows "\<not> renderedFirstPageChunk st \<Longrightarrow>
      string_write f result isPage st (ChunkResponse r)
        = st\<lparr>renderedFirstPageChunk := True, str := str st @ doctype result\<rparr>"
    and "\<not> renderedFirstPageChunk sst \<Longrightarrow>
      stream_write g result isPage sst (ChunkResponse r)
        = (sst\<lparr>renderedFirstPageChunk := True,
                enqueued := enqueued sst @ [encode (doctype result)]\<rparr>,
           Some (AstroError ResponseSentError None))"
    and "\<not> renderedFirstPageChunk ist \<Longrightarrow>
      iterable_write g result isPage ist (ChunkResponse r)
        = (ist\<lparr>renderedFirstPageChunk := True,
                buffer := buffer ist @ [encode (doctype result)]\<rparr>,
           Some (AstroError ResponseSentError None))"
  using assms
  by (simp_all add: string_write_def stream_write_def iterable_write_def Let_def
      needs_doctype_response)

lemma write_after_first:
  "renderedFirstPageChunk st \<Longrightarrow>
     string_write f result isPage st c
       = (if instanceof_Response c then st else st\<lparr>str := str st @ f result c\<rparr>)"
  "renderedFirstPageChunk sst \<Longrightarrow>
     fst (stream_write g result isPage sst c)
       = (if instanceof_Response c then sst
          else sst\<lparr>enqueued := enqueued sst @ [g result c]\<rparr>)"
  "renderedFirstPageChunk ist \<Longrightarrow>
     concat (buffer (fst (iterable_write g result isPage ist c)))
       = concat (buffer ist) @ (if instanceof_Response c then [] else g result c)"
  by (simp_all add: string_write_def stream_write_def iterable_write_def Let_def
      next_renew_def next_resolve_def)

section \<open>Concrete inputs\<close>

text \<open>
  Conversions, contexts and factories on which the theorems below are evaluated: the
  conversions keep a string or a byte array as it is, \<open>page_context\<close> is a full page
  without propagators, and \<open>head_context\<close> has one instance whose initializer gives a
  head fragment.
\<close>

definition plain_chunkToString :: "ssrResult \<Rightarrow> chunk \<Rightarrow> string" where
  "plain_chunkToString result chunk =
     (case chunk of
        ChunkString s \<Rightarrow> s
      | ChunkBytes b \<Rightarrow> map (\<lambda>x. char_of (unat x)) b
      | ChunkResponse r \<Rightarrow> '''')"

definition plain_chunkToByteArray :: "ssrResult \<Rightarrow> chunk \<Rightarrow> uint8Array" where
  "plain_chunkToByteArray result chunk =
     (case chunk of
        ChunkString s \<Rightarrow> encode s
      | ChunkBytes b \<Rightarrow> b
      | ChunkResponse r \<Rightarrow> [])"

definition page_context :: ssrResult where
  "page_context =
     \<lparr>partial = False, compressHTML = False,
      metadata = \<lparr>propagators = [], extraHead = []\<rparr>\<rparr>"

definition about_route :: routeData where
  "about_route = \<lparr>route = ''/about'', component = ''src/pages/about.astro''\<rparr>"

definition constant_factory :: "factoryResult \<Rightarrow> (unit, unit) astroComponentFactory" where
  "constant_factory factoryResult result props children = Inr factoryResult"

definition head_instance :: propagator where
  "head_instance =
     Propagator 1
       (Inr (FactoryHeadAndContent ''<link rel=stylesheet>''
          (RenderTemplateResult [ChunkString ''<nav></nav>''] Resolves))) []"

definition head_context :: ssrResult where
  "head_context =
     \<lparr>partial = False, compressHTML = True,
      metadata = \<lparr>propagators = [head_instance], extraHead = []\<rparr>\<rparr>"

lemma bufferHeadContent_head_context:
  "bufferHeadContent head_context =
     Inr (head_context\<lparr>metadata := \<lparr>propagators = [head_instance],
            extraHead = [''<link rel=stylesheet>'']\<rparr>\<rparr>)"
  by (simp add: bufferHeadContent_def bufferHeadLoop.simps head_context_def head_instance_def
      push_head_def register_all_def)

definition html_template :: renderTemplateResult where
  "html_template =
     RenderTemplateResult [ChunkString ''<html>'', ChunkString ''<body>Hi</body></html>'']
       Resolves"

definition pull_schedule :: "action list" where
  "pull_schedule =
     [RenderStep, NextCall, RenderStep, NextResume, RenderStep, NextCall, NextResume]"

lemma html_template_dispatch:
  "callComponentAsTemplateResultOrResponse page_context
     (constant_factory (FactoryTemplate html_template)) () () None
   = Inr (IsTemplate html_template)"
  by (simp add: callComponentAsTemplateResultOrResponse_def constant_factory_def)

lemma html_template_doctype:
  "doctype_for page_context True (writes html_template) = ''<!DOCTYPE html>\<newline>''"
  by (simp add: doctype_for_def html_template_def page_context_def DOCTYPE_EXP_test_def
      canonicalize_def)

lemma html_template_run:
  "\<exists>st. run plain_chunkToByteArray page_context True (iterable_initial html_template)
          pull_schedule = Some st \<and> task st = Finished"
  by (simp add: pull_schedule_def iterable_initial_def html_template_def render_step_def
      iterable_write_def next_call_def next_resume_def next_resolve_def next_renew_def
      is_resolved_def iterator_next_body_def needs_doctype_def page_context_def
      DOCTYPE_EXP_test_def canonicalize_def plain_chunkToByteArray_def encode_def Let_def
      array_set_def doctype_def)

definition drained_state :: iterable_state where
  "drained_state =
     \<lparr>renderedFirstPageChunk = True, error = None, next = 2, promises = [True, True, True],
      buffer = [[60, 112], [62]], task = Finished, awaiting = [], delivered = []\<rparr>"

definition failing_template :: renderTemplateResult where
  "failing_template = RenderTemplateResult [ChunkString ''<p>''] (Rejects (OtherError ''boom''))"

lemma failing_template_run:
  "\<exists>st. run plain_chunkToByteArray page_context True (iterable_initial failing_template)
          [RenderStep] = Some st
        \<and> task st = Running [] (Rejects (OtherError ''boom'')) \<and> delivered st = []"
  by (simp add: iterable_initial_def failing_template_def render_step_def
      iterable_write_def next_resolve_def next_renew_def needs_doctype_def page_context_def
      DOCTYPE_EXP_test_def canonicalize_def plain_chunkToByteArray_def encode_def Let_def
      doctype_def)

lemma html_template_chunks:
  "list_all (\<lambda>c. \<not> instanceof_Response c) (writes html_template)"
  "outcome html_template = Resolves"
  by (simp_all add: html_template_def)

lemma page_context_head: "bufferHeadContent page_context = Inr page_context"
  by (simp add: bufferHeadContent_def bufferHeadLoop.simps page_context_def)


definition redirect_template :: renderTemplateResult where
  "redirect_template =
     RenderTemplateResult [ChunkString ''<p>'', ChunkResponse (Response 3), ChunkString ''</p>'']
       Resolves"

lemma redirect_template_dispatch:
  "callComponentAsTemplateResultOrResponse page_context
     (constant_factory (FactoryTemplate redirect_template)) () () (Some about_route)
   = Inr (IsTemplate redirect_template)"
  by (simp add: callComponentAsTemplateResultOrResponse_def constant_factory_def)

lemma redirect_template_facts:
  "\<not> list_all (\<lambda>c. \<not> instanceof_Response c) (writes redirect_template)"
  "outcome redirect_template = Resolves"
  "doctype_for page_context True (writes redirect_template) = ''<!DOCTYPE html>\<newline>''"
  "non_responses (writes redirect_template) = [ChunkString ''<p>'', ChunkString ''</p>'']"
  "before_response (writes redirect_template) = [ChunkString ''<p>'']"
  by (simp_all add: redirect_template_def doctype_for_def page_context_def
      DOCTYPE_EXP_test_def canonicalize_def non_responses_def before_response_def)

lemma redirect_template_run:
  "\<exists>st. run plain_chunkToByteArray page_context True (iterable_initial redirect_template)
          [RenderStep, RenderStep, RenderStep] = Some st \<and> task st = Finished
        \<and> delivered st = []"
  by (simp add: iterable_initial_def redirect_template_def render_step_def
      iterable_write_def next_resolve_def next_renew_def needs_doctype_def page_context_def
      DOCTYPE_EXP_test_def canonicalize_def plain_chunkToByteArray_def encode_def Let_def
      doctype_def)

definition first_response_template :: renderTemplateResult where
  "first_response_template =
     RenderTemplateResult [ChunkResponse (Response 3), ChunkString ''<html>''] Resolves"

lemma first_response_template_dispatch:
  "callComponentAsTemplateResultOrResponse page_context
     (constant_factory (FactoryTemplate first_response_template)) () () None
   = Inr (IsTemplate first_response_template)"
  by (simp add: callComponentAsTemplateResultOrResponse_def constant_factory_def)

lemma page_context_facts:
  "\<not> partial page_context" "doctype page_context = ''<!DOCTYPE html>\<newline>''"
  by (simp_all add: page_context_def doctype_def)

definition nav_template :: renderTemplateResult where
  "nav_template = RenderTemplateResult [ChunkString ''<nav></nav>''] Resolves"

definition nested_instances :: "propagator list" where
  "nested_instances =
     [Propagator 1 (Inr (FactoryHeadAndContent ''<link a>'' nav_template))
        [Propagator 2 (Inr (FactoryHeadAndContent ''<link b>'' nav_template)) [],
         Propagator 1 (Inr (FactoryHeadAndContent ''<link a>'' nav_template)) []],
      Propagator 3 (Inr (FactoryTemplate nav_template)) []]"

definition nested_context :: ssrResult where
  "nested_context =
     \<lparr>partial = False, compressHTML = False,
      metadata = \<lparr>propagators = nested_instances, extraHead = [''<meta>'']\<rparr>\<rparr>"

lemma nested_context_head:
  "bufferHeadContent nested_context =
     Inr (nested_context\<lparr>metadata :=
       \<lparr>propagators = nested_instances
          @ [Propagator 2 (Inr (FactoryHeadAndContent ''<link b>'' nav_template)) []],
        extraHead = [''<meta>'', ''<link a>'', ''<link b>'']\<rparr>\<rparr>)"
  by (simp add: bufferHeadContent_def bufferHeadLoop.simps nested_context_def
      nested_instances_def push_head_def register_all_def propagators_add_def Let_def)

lemma nav_template_dispatch:
  "callComponentAsTemplateResultOrResponse nested_context
     (constant_factory (FactoryTemplate nav_template)) () () None
   = Inr (IsTemplate nav_template)"
  by (simp add: callComponentAsTemplateResultOrResponse_def constant_factory_def)

section \<open>The claims\<close>



text \<open>
  C2. When the awaited factory gives a response, each of the three adapters returns that
  very response and the render context untouched: no string, stream or iterable is
  created, so nothing is written, and the head propagator does not run even for a page
  whose context has propagators.
\<close>

theorem response_short_circuits:
  assumes "componentFactory result props children = Inr (FactoryResponse r)"
  shows "renderToString chunkToString result componentFactory props children isPage rt
           = Inr (result, ReturnsResponse r)
       \<and> renderToReadableStream chunkToByteArray result componentFactory props children isPage rt
           = Inr (result, ReturnsResponse r)
       \<and> renderToAsyncIterable result componentFactory props children isPage rt
           = Inr (result, ReturnsResponse r)"
  using assms
  by (simp add: callComponentAsTemplateResultOrResponse_def renderToString_def
      renderToReadableStream_def renderToAsyncIterable_def)

theorem response_short_circuits_witness:
  "constant_factory (FactoryResponse (Response 7)) head_context () ()
     = Inr (FactoryResponse (Response 7))
   \<and> renderToString plain_chunkToString head_context
        (constant_factory (FactoryResponse (Response 7))) () () True None
      = Inr (head_context, ReturnsResponse (Response 7))
   \<and> renderToReadableStream plain_chunkToByteArray head_context
        (constant_factory (FactoryResponse (Response 7))) () () True None
      = Inr (head_context, ReturnsResponse (Response 7))
   \<and> renderToAsyncIterable head_context
        (constant_factory (FactoryResponse (Response 7))) () () True None
      = Inr (head_context, ReturnsResponse (Response 7))"
  using response_short_circuits [of "constant_factory (FactoryResponse (Response 7))"
      head_context "()" "()" "Response 7" plain_chunkToString True None plain_chunkToByteArray]
  by (simp add: constant_factory_def)



text \<open>
  C4. In every state of the Async-Iterable Adapter a call of \<^verbatim>\<open>next()\<close> awaits the
  promise that the variable \<^verbatim>\<open>next\<close> holds at the call, and goes on only when that
  promise is resolved. Its body then throws the recorded error if there is one; otherwise
  it returns the concatenation of the buffered chunks in buffer order, whose length is
  the sum of their lengths, empties the buffer, and sets \<^verbatim>\<open>done\<close> exactly when the
  merged array is empty. So it never returns an empty array with \<^verbatim>\<open>done\<close> false.
\<close>

theorem next_merges_buffer:
  "awaiting (next_call st) = awaiting st @ [next st]
   \<and> (awaiting st = [] \<longrightarrow>
        (next_resume (next_call st) = None) = (\<not> is_resolved st (next st)))
   \<and> (case error st of
        Some e \<Rightarrow> iterator_next_body st = (Inl e, st)
      | None \<Rightarrow>
          iterator_next_body st =
            (Inr \<lparr>done_flag = (concat (buffer st) = []), value_bytes = concat (buffer st)\<rparr>,
             st\<lparr>buffer := []\<rparr>)
          \<and> length (concat (buffer st)) = sum_list (map length (buffer st)))
   \<and> (\<forall>r st'. iterator_next_body st = (Inr r, st') \<longrightarrow>
          done_flag r = (value_bytes r = []) \<and> buffer st' = [])"
proof (intro conjI)
  show "awaiting (next_call st) = awaiting st @ [next st]"
    by (simp add: next_call_def)
  show "awaiting st = [] \<longrightarrow>
      (next_resume (next_call st) = None) = (\<not> is_resolved st (next st))"
  proof
    assume "awaiting st = []"
    then have "next_resume (next_call st) =
        (if is_resolved st (next st)
         then (case iterator_next_body (next_call st) of
                 (r, st') \<Rightarrow> Some (st'\<lparr>awaiting := [], delivered := delivered st' @ [r]\<rparr>))
         else None)"
      by (simp add: next_call_def next_resume_def is_resolved_def)
    then show "(next_resume (next_call st) = None) = (\<not> is_resolved st (next st))"
      by (cases "iterator_next_body (next_call st)") simp
  qed
  show "case error st of
        Some e \<Rightarrow> iterator_next_body st = (Inl e, st)
      | None \<Rightarrow>
          iterator_next_body st =
            (Inr \<lparr>done_flag = (concat (buffer st) = []), value_bytes = concat (buffer st)\<rparr>,
             st\<lparr>buffer := []\<rparr>)
          \<and> length (concat (buffer st)) = sum_list (map length (buffer st))"
  proof (cases "error st")
    case None
    then show ?thesis
      using iterator_next_body_merged [OF None] length_concat_sum [of "buffer st"]
      by (simp del: length_concat)
  next
    case (Some e)
    then show ?thesis using iterator_next_body_error [OF Some] by simp
  qed
  show "\<forall>r st'. iterator_next_body st = (Inr r, st') \<longrightarrow>
      done_flag r = (value_bytes r = []) \<and> buffer st' = []"
  proof (cases "error st")
    case None
    then show ?thesis using iterator_next_body_merged [OF None] by auto
  next
    case (Some e)
    then show ?thesis using iterator_next_body_error [OF Some] by auto
  qed
qed

theorem next_merges_buffer_witness:
  "iterator_next_body drained_state
     = (Inr \<lparr>done_flag = False, value_bytes = [60, 112, 62]\<rparr>, drained_state\<lparr>buffer := []\<rparr>)
   \<and> iterator_next_body (drained_state\<lparr>buffer := []\<rparr>)
     = (Inr \<lparr>done_flag = True, value_bytes = []\<rparr>, drained_state\<lparr>buffer := []\<rparr>)
   \<and> next_resume (next_call drained_state) \<noteq> None
   \<and> next_resume (next_call (drained_state\<lparr>promises := [True, True, False]\<rparr>)) = None"
proof -
  have e1: "error drained_state = None" and b1: "buffer drained_state = [[60, 112], [62]]"
    and a1: "awaiting drained_state = []" and r1: "is_resolved drained_state (next drained_state)"
    by (simp_all add: drained_state_def is_resolved_def)
  have first: "iterator_next_body drained_state
     = (Inr \<lparr>done_flag = False, value_bytes = [60, 112, 62]\<rparr>, drained_state\<lparr>buffer := []\<rparr>)"
    using next_merges_buffer [of drained_state] by (simp add: e1 b1)
  let ?st = "drained_state\<lparr>buffer := []\<rparr>"
  have "error ?st = None" and "buffer ?st = []" by (simp_all add: e1)
  then have second: "iterator_next_body ?st
     = (Inr \<lparr>done_flag = True, value_bytes = []\<rparr>, ?st)"
    using next_merges_buffer [of ?st] by simp
  have third: "next_resume (next_call drained_state) \<noteq> None"
    using next_merges_buffer [of drained_state] a1 r1 by simp
  let ?w = "drained_state\<lparr>promises := [True, True, False]\<rparr>"
  have "awaiting ?w = []" and "\<not> is_resolved ?w (next ?w)"
    by (simp_all add: drained_state_def is_resolved_def)
  then have fourth: "next_resume (next_call ?w) = None"
    using next_merges_buffer [of ?w] by simp
  from first second third fourth show ?thesis by simp
qed

text \<open>
  C10. A failure of the render is recorded for good. In a state that the adapter reaches
  from its start with the render rejected with \<open>e\<close>, the handler of
  \<^verbatim>\<open>renderPromise\<close> runs: it stores \<open>e\<close> and resolves the promise in \<^verbatim>\<open>next\<close>,
  and gives nothing to the consumer. From then on, whatever calls of \<^verbatim>\<open>next()\<close>
  follow, the error and the promise stay as they are (no write replaces the promise any
  more), every call that has returned has thrown \<open>e\<close>, and one more call is never left
  suspended and throws \<open>e\<close> again.
\<close>

theorem failure_is_persistent:
  assumes "run g result isPage (iterable_initial t) sched = Some st"
    and "task st = Running [] (Rejects e)"
  shows "\<exists>st1. render_step g result isPage st = Some st1
       \<and> error st1 = Some e \<and> is_resolved st1 (next st1) \<and> delivered st1 = delivered st
       \<and> (\<forall>sched' st2. run g result isPage st1 sched' = Some st2 \<longrightarrow>
             error st2 = Some e \<and> next st2 = next st1 \<and> is_resolved st2 (next st2)
             \<and> (\<exists>k. delivered st2 = delivered st1 @ replicate k (Inl e))
             \<and> (\<exists>st3. next_resume (next_call st2) = Some st3
                   \<and> delivered st3 = delivered st2 @ [Inl e]))"
proof -
  have wf: "wf_promises st"
    using run_wf [OF assms(1) wf_promises_initial] .
  from record_failure [OF wf assms(2)] obtain st1
    where s1: "render_step g result isPage st = Some st1" and fin1: "task st1 = Finished"
      and err1: "error st1 = Some e" and res1: "is_resolved st1 (next st1)"
      and del1: "delivered st1 = delivered st"
    by blast
  have wf1: "wf_promises st1" using render_step_wf [OF s1 wf] .
  have "\<forall>sched' st2. run g result isPage st1 sched' = Some st2 \<longrightarrow>
      error st2 = Some e \<and> next st2 = next st1 \<and> is_resolved st2 (next st2)
      \<and> (\<exists>k. delivered st2 = delivered st1 @ replicate k (Inl e))
      \<and> (\<exists>st3. next_resume (next_call st2) = Some st3
            \<and> delivered st3 = delivered st2 @ [Inl e])"
  proof (intro allI impI)
    fix sched' st2
    assume r: "run g result isPage st1 sched' = Some st2"
    note f = run_after_failure [OF r fin1 err1]
    have wf2: "wf_promises st2" using run_wf [OF r wf1] .
    from f have fin2: "task st2 = Finished" and err2: "error st2 = Some e" by simp_all
    have "is_resolved st2 (next st2)"
      using f res1 by (simp add: is_resolved_def)
    with f pull_after_failure [OF wf2 fin2 err2]
    show "error st2 = Some e \<and> next st2 = next st1 \<and> is_resolved st2 (next st2)
      \<and> (\<exists>k. delivered st2 = delivered st1 @ replicate k (Inl e))
      \<and> (\<exists>st3. next_resume (next_call st2) = Some st3
            \<and> delivered st3 = delivered st2 @ [Inl e])"
      by simp
  qed
  with s1 err1 res1 del1 show ?thesis by blast
qed

theorem failure_is_persistent_witness:
  "\<exists>st st1 st2 st3.
     run plain_chunkToByteArray page_context True (iterable_initial failing_template)
       [RenderStep] = Some st
     \<and> task st = Running [] (Rejects (OtherError ''boom''))
     \<and> render_step plain_chunkToByteArray page_context True st = Some st1
     \<and> error st1 = Some (OtherError ''boom'')
     \<and> run plain_chunkToByteArray page_context True st1 [NextCall, NextResume] = Some st2
     \<and> delivered st2 = [Inl (OtherError ''boom'')]
     \<and> run plain_chunkToByteArray page_context True st2 [NextCall, NextResume] = Some st3
     \<and> delivered st3 = [Inl (OtherError ''boom''), Inl (OtherError ''boom'')]"
proof -
  let ?run = "run plain_chunkToByteArray page_context True"
  let ?e = "OtherError ''boom''"
  obtain st where st: "?run (iterable_initial failing_template) [RenderStep] = Some st"
    "task st = Running [] (Rejects ?e)" "delivered st = []"
    using failing_template_run by blast
  from failure_is_persistent [OF st(1,2)] obtain st1
    where s1: "render_step plain_chunkToByteArray page_context True st = Some st1"
      and e1: "error st1 = Some ?e" and d1: "delivered st1 = delivered st"
      and later: "\<And>sched' st2. ?run st1 sched' = Some st2 \<Longrightarrow>
          (\<exists>st3. next_resume (next_call st2) = Some st3
             \<and> delivered st3 = delivered st2 @ [Inl ?e])"
    by blast
  have "?run st1 [] = Some st1" by simp
  from later [OF this] obtain st2 where s2: "next_resume (next_call st1) = Some st2"
    and d2: "delivered st2 = delivered st1 @ [Inl ?e]" by blast
  have r2: "?run st1 [NextCall, NextResume] = Some st2" using s2 by simp
  from later [OF r2] obtain st3 where s3: "next_resume (next_call st2) = Some st3"
    and d3: "delivered st3 = delivered st2 @ [Inl ?e]" by blast
  have r3: "?run st2 [NextCall, NextResume] = Some st3" using s3 by simp
  have "delivered st2 = [Inl ?e]" using d2 d1 st(3) by simp
  moreover have "delivered st3 = [Inl ?e, Inl ?e]" using d3 d2 d1 st(3) by simp
  ultimately show ?thesis using st(1,2) s1 e1 r2 r3 by blast
qed

text \<open>
  C7. No byte is duplicated, dropped or reordered. For a render that writes no response
  chunk and resolves, the chunks that the Stream Adapter has enqueued, put end to end, are
  the bytes of the doctype (when one is due) followed by the converted bytes of the
  written chunks in order, so their lengths add up to the length of the doctype plus the
  converted lengths; the stream is then closed. For the Async-Iterable Adapter, whatever
  the interleaving of writes and pulls, once the render task has finished no pull has
  thrown, one more pull is not left suspended and empties the buffer, the arrays that all
  pulls have returned, put end to end, are those same bytes with that same length, and
  the pull after it returns the empty array with \<^verbatim>\<open>done\<close> set.
\<close>

theorem bytes_are_conserved:
  assumes disp: "callComponentAsTemplateResultOrResponse result componentFactory props children rt
             = Inr (IsTemplate t)"
    and chunks: "list_all (\<lambda>c. \<not> instanceof_Response c) (writes t)"
    and ok: "outcome t = Resolves"
  shows "(\<forall>result' s.
            renderToReadableStream chunkToByteArray result componentFactory props children
              isPage rt = Inr (result', Returns s) \<longrightarrow>
            closed s
            \<and> concat (enqueued s)
                = encode (doctype_for result isPage (writes t))
                    @ concat (map (chunkToByteArray result') (writes t))
            \<and> sum_list (map length (enqueued s))
                = length (doctype_for result isPage (writes t))
                    + sum_list (map (\<lambda>c. length (chunkToByteArray result' c)) (writes t)))
       \<and> (\<forall>result' it sched st.
            renderToAsyncIterable result componentFactory props children isPage rt
              = Inr (result', Returns it) \<longrightarrow>
            run chunkToByteArray result' isPage it sched = Some st \<longrightarrow>
            task st = Finished \<longrightarrow>
            list_all (\<lambda>r. \<not> isl r) (delivered st)
            \<and> (\<exists>st' st''.
                  next_resume (next_call st) = Some st'
                  \<and> list_all (\<lambda>r. \<not> isl r) (delivered st')
                  \<and> buffer st' = []
                  \<and> delivered_bytes st'
                      = encode (doctype_for result isPage (writes t))
                          @ concat (map (chunkToByteArray result') (writes t))
                  \<and> length (delivered_bytes st')
                      = length (doctype_for result isPage (writes t))
                          + sum_list (map (\<lambda>c. length (chunkToByteArray result' c)) (writes t))
                  \<and> next_resume (next_call st') = Some st''
                  \<and> delivered st''
                      = delivered st' @ [Inr \<lparr>done_flag = True, value_bytes = []\<rparr>]))"
proof (intro conjI allI impI)
  fix result' s
  assume r: "renderToReadableStream chunkToByteArray result componentFactory props children
      isPage rt = Inr (result', Returns s)"
  then have hp: "(if isPage then bufferHeadContent result else Inr result) = Inr result'"
    and s: "s = stream_task chunkToByteArray result' isPage rt t stream_initial"
    by (auto simp: renderToReadableStream_template [OF disp] split: sum.splits)
  have d: "doctype_for result' isPage (writes t) = doctype_for result isPage (writes t)"
    by (rule doctype_for_context [OF head_pass_context [OF hp]])
  have "settles (writes t) (outcome t) = Resolves"
    using chunks ok by (simp add: settles_all)
  from stream_task_closed [OF this] show "closed s" by (simp add: s)
  have enq: "enqueued s = doctype_unit result' isPage (writes t)
      @ map (chunkToByteArray result') (writes t)"
    using chunks by (simp add: s stream_task_enqueued before_response_all)
  then show c: "concat (enqueued s)
      = encode (doctype_for result isPage (writes t))
          @ concat (map (chunkToByteArray result') (writes t))"
    by (simp add: concat_doctype_unit d)
  have "sum_list (map length (enqueued s)) = length (concat (enqueued s))"
    by (simp add: length_concat_sum del: length_concat)
  then show "sum_list (map length (enqueued s))
      = length (doctype_for result isPage (writes t))
          + sum_list (map (\<lambda>c. length (chunkToByteArray result' c)) (writes t))"
    by (simp add: c length_encode length_concat_map del: length_concat)
next
  fix result' it sched st
  assume r: "renderToAsyncIterable result componentFactory props children isPage rt
      = Inr (result', Returns it)"
    and run: "run chunkToByteArray result' isPage it sched = Some st"
    and fin: "task st = Finished"
  from r have hp: "(if isPage then bufferHeadContent result else Inr result) = Inr result'"
    and it: "it = iterable_initial t"
    by (auto simp: renderToAsyncIterable_template [OF disp] split: sum.splits)
  have d: "doctype_for result' isPage (writes t) = doctype_for result isPage (writes t)"
    by (rule doctype_for_context [OF head_pass_context [OF hp]])
  have run': "run chunkToByteArray result' isPage (iterable_initial t) sched = Some st"
    using run it by simp
  have c: "clean_run st"
    using run_clean [OF run' clean_run_initial [OF chunks ok]] .
  have wf: "wf_promises st"
    using run_wf [OF run' wf_promises_initial] .
  from c show "list_all (\<lambda>r. \<not> isl r) (delivered st)" by (simp add: clean_run_def)
  have total: "delivered_bytes st @ concat (buffer st)
      = encode (doctype_for result isPage (writes t))
          @ concat (map (chunkToByteArray result') (writes t))"
    using run_iterable_initial [OF run'] chunks fin
    by (simp add: account_Finished before_response_all d)
  from pull_after_success [OF wf fin c] obtain st'
    where n1: "next_resume (next_call st) = Some st'"
      and d1: "delivered st' = delivered st @ [Inr \<lparr>done_flag = (concat (buffer st) = []),
                 value_bytes = concat (buffer st)\<rparr>]"
      and b1: "buffer st' = []" and f1: "task st' = Finished" and c1: "clean_run st'"
      and wf1: "wf_promises st'"
    by blast
  from pull_after_success [OF wf1 f1 c1] obtain st''
    where n2: "next_resume (next_call st') = Some st''"
      and d2: "delivered st'' = delivered st' @ [Inr \<lparr>done_flag = (concat (buffer st') = []),
                 value_bytes = concat (buffer st')\<rparr>]"
    by blast
  have bytes: "delivered_bytes st'
      = encode (doctype_for result isPage (writes t))
          @ concat (map (chunkToByteArray result') (writes t))"
    using delivered_bytes_snoc [OF d1] total by simp
  have len: "length (delivered_bytes st')
      = length (doctype_for result isPage (writes t))
          + sum_list (map (\<lambda>c. length (chunkToByteArray result' c)) (writes t))"
    by (simp add: bytes length_encode length_concat_map del: length_concat)
  have "delivered st'' = delivered st' @ [Inr \<lparr>done_flag = True, value_bytes = []\<rparr>]"
    using d2 b1 by simp
  moreover have "list_all (\<lambda>r. \<not> isl r) (delivered st')"
    using c1 by (simp add: clean_run_def)
  ultimately show "\<exists>st' st''.
      next_resume (next_call st) = Some st'
      \<and> list_all (\<lambda>r. \<not> isl r) (delivered st')
      \<and> buffer st' = []
      \<and> delivered_bytes st'
          = encode (doctype_for result isPage (writes t))
              @ concat (map (chunkToByteArray result') (writes t))
      \<and> length (delivered_bytes st')
          = length (doctype_for result isPage (writes t))
              + sum_list (map (\<lambda>c. length (chunkToByteArray result' c)) (writes t))
      \<and> next_resume (next_call st') = Some st''
      \<and> delivered st''
          = delivered st' @ [Inr \<lparr>done_flag = True, value_bytes = []\<rparr>]"
    using n1 n2 b1 bytes len by blast
qed

theorem bytes_are_conserved_witness:
  "(\<exists>s. renderToReadableStream plain_chunkToByteArray page_context
           (constant_factory (FactoryTemplate html_template)) () () True None
         = Inr (page_context, Returns s)
       \<and> closed s
       \<and> concat (enqueued s) = encode ''<!DOCTYPE html>\<newline><html><body>Hi</body></html>''
       \<and> sum_list (map length (enqueued s)) = 44)
   \<and> (\<exists>it st st'. renderToAsyncIterable page_context
           (constant_factory (FactoryTemplate html_template)) () () True None
         = Inr (page_context, Returns it)
       \<and> run plain_chunkToByteArray page_context True it pull_schedule = Some st
       \<and> task st = Finished
       \<and> next_resume (next_call st) = Some st'
       \<and> delivered_bytes st' = encode ''<!DOCTYPE html>\<newline><html><body>Hi</body></html>''
       \<and> length (delivered_bytes st') = 44)"
proof -
  note claim = bytes_are_conserved [OF html_template_dispatch html_template_chunks,
      of plain_chunkToByteArray True]
  have expected: "encode (doctype_for page_context True (writes html_template))
      @ concat (map (plain_chunkToByteArray page_context) (writes html_template))
      = encode ''<!DOCTYPE html>\<newline><html><body>Hi</body></html>''"
    by (simp add: html_template_doctype)
      (simp add: html_template_def plain_chunkToByteArray_def encode_def)
  have count: "length (doctype_for page_context True (writes html_template))
      + sum_list (map (\<lambda>c. length (plain_chunkToByteArray page_context c))
          (writes html_template)) = 44"
    by (simp add: html_template_doctype)
      (simp add: html_template_def plain_chunkToByteArray_def encode_def)
  let ?s = "stream_task plain_chunkToByteArray page_context True None html_template
      stream_initial"
  have stream: "renderToReadableStream plain_chunkToByteArray page_context
       (constant_factory (FactoryTemplate html_template)) () () True None
     = Inr (page_context, Returns ?s)"
    by (simp add: renderToReadableStream_template [OF html_template_dispatch]
        page_context_head)
  from claim stream
  have "closed ?s
      \<and> concat (enqueued ?s)
          = encode (doctype_for page_context True (writes html_template))
              @ concat (map (plain_chunkToByteArray page_context) (writes html_template))
      \<and> sum_list (map length (enqueued ?s))
          = length (doctype_for page_context True (writes html_template))
              + sum_list (map (\<lambda>c. length (plain_chunkToByteArray page_context c))
                  (writes html_template))"
    by blast
  then have first: "closed ?s
      \<and> concat (enqueued ?s) = encode ''<!DOCTYPE html>\<newline><html><body>Hi</body></html>''
      \<and> sum_list (map length (enqueued ?s)) = 44"
    using expected count by simp
  have iter: "renderToAsyncIterable page_context
       (constant_factory (FactoryTemplate html_template)) () () True None
     = Inr (page_context, Returns (iterable_initial html_template))"
    by (simp add: renderToAsyncIterable_template [OF html_template_dispatch]
        page_context_head)
  obtain st where st: "run plain_chunkToByteArray page_context True
      (iterable_initial html_template) pull_schedule = Some st" "task st = Finished"
    using html_template_run by blast
  from claim iter st obtain st' where "next_resume (next_call st) = Some st'"
    and "delivered_bytes st'
      = encode (doctype_for page_context True (writes html_template))
          @ concat (map (plain_chunkToByteArray page_context) (writes html_template))"
    and "length (delivered_bytes st')
      = length (doctype_for page_context True (writes html_template))
          + sum_list (map (\<lambda>c. length (plain_chunkToByteArray page_context c))
              (writes html_template))"
    by blast
  then have second: "next_resume (next_call st) = Some st'
      \<and> delivered_bytes st' = encode ''<!DOCTYPE html>\<newline><html><body>Hi</body></html>''
      \<and> length (delivered_bytes st') = 44"
    using expected count by simp
  from first second stream iter st show ?thesis by blast
qed




text \<open>
  C3. A response chunk that is written to a destination. The String Adapter's
  \<^verbatim>\<open>write\<close> does not throw on it and adds none of it to the text: a render that
  resolves returns the doctype it is due followed by the text of all other chunks. The
  \<^verbatim>\<open>write\<close> of the Stream Adapter and of the Async-Iterable Adapter throw an
  \<^verbatim>\<open>AstroError\<close> of kind \<^verbatim>\<open>ResponseSentError\<close> on it. So the stream holds the chunks
  written before the response only, is not closed, and reports that error (with the
  route's component as location) on the next tick; and the iterable, once the task has
  finished, has recorded that error, has delivered or buffered the bytes written before
  the response only, and throws the error at the next call of \<^verbatim>\<open>next()\<close>.
\<close>

theorem response_chunk_mid_stream:
  assumes disp: "callComponentAsTemplateResultOrResponse result componentFactory props children rt
             = Inr (IsTemplate t)"
    and resp: "\<not> list_all (\<lambda>c. \<not> instanceof_Response c) (writes t)"
  shows "(outcome t = Resolves \<longrightarrow>
            renderToString chunkToString result componentFactory props children isPage rt
              = Inr (result, Returns (doctype_for result isPage (writes t)
                       @ concat (map (chunkToString result) (non_responses (writes t))))))
       \<and> (\<forall>result' s.
            renderToReadableStream chunkToByteArray result componentFactory props children
              isPage rt = Inr (result', Returns s) \<longrightarrow>
            \<not> closed s
            \<and> enqueued s = doctype_unit result isPage (writes t)
                  @ map (chunkToByteArray result') (before_response (writes t))
            \<and> timeouts s
                = [AstroError ResponseSentError (Some \<lparr>loc_file = map_option component rt\<rparr>)]
            \<and> errored (next_tick s)
                = Some (AstroError ResponseSentError
                          (Some \<lparr>loc_file = map_option component rt\<rparr>)))
       \<and> (\<forall>result' it sched st.
            renderToAsyncIterable result componentFactory props children isPage rt
              = Inr (result', Returns it) \<longrightarrow>
            run chunkToByteArray result' isPage it sched = Some st \<longrightarrow>
            task st = Finished \<longrightarrow>
            error st = Some (AstroError ResponseSentError None)
            \<and> delivered_bytes st @ concat (buffer st)
                = encode (doctype_for result isPage (writes t))
                    @ concat (map (chunkToByteArray result') (before_response (writes t)))
            \<and> (\<exists>st'. next_resume (next_call st) = Some st'
                  \<and> delivered st' = delivered st @ [Inl (AstroError ResponseSentError None)]))
       \<and> (\<forall>st r. snd (string_destination chunkToString result isPage st (ChunkResponse r))
                    = None)
       \<and> (\<forall>st r. snd (stream_write chunkToByteArray result isPage st (ChunkResponse r))
                    = Some (AstroError ResponseSentError None))
       \<and> (\<forall>st r. snd (iterable_write chunkToByteArray result isPage st (ChunkResponse r))
                    = Some (AstroError ResponseSentError None))"
proof (intro conjI allI impI)
  assume "outcome t = Resolves"
  then show "renderToString chunkToString result componentFactory props children isPage rt
      = Inr (result, Returns (doctype_for result isPage (writes t)
               @ concat (map (chunkToString result) (non_responses (writes t)))))"
    by (simp add: renderToString_template [OF disp])
next
  fix result' s
  assume r: "renderToReadableStream chunkToByteArray result componentFactory props children
      isPage rt = Inr (result', Returns s)"
  from r have hp: "(if isPage then bufferHeadContent result else Inr result) = Inr result'"
    and s: "s = stream_task chunkToByteArray result' isPage rt t stream_initial"
    by (auto simp: renderToReadableStream_template [OF disp] split: sum.splits)
  have d: "doctype_unit result' isPage (writes t) = doctype_unit result isPage (writes t)"
    using doctype_for_context [OF head_pass_context [OF hp]] by (simp add: doctype_unit_def)
  let ?e = "AstroError ResponseSentError None"
  have v: "settles (writes t) (outcome t) = Rejects ?e"
    using resp by (rule settles_response)
  have e': "surfaced rt ?e
      = AstroError ResponseSentError (Some \<lparr>loc_file = map_option component rt\<rparr>)"
    by (simp add: surfaced_def)
  have shape: "s = stream_initial\<lparr>renderedFirstPageChunk := (isPage \<and> writes t \<noteq> []),
      enqueued := doctype_unit result isPage (writes t)
        @ map (chunkToByteArray result') (before_response (writes t)),
      timeouts := [surfaced rt ?e]\<rparr>"
    by (simp add: s stream_task_settled d v)
  show "\<not> closed s" by (simp add: shape stream_initial_def)
  show "enqueued s = doctype_unit result isPage (writes t)
      @ map (chunkToByteArray result') (before_response (writes t))"
    by (simp add: shape)
  show "timeouts s
      = [AstroError ResponseSentError (Some \<lparr>loc_file = map_option component rt\<rparr>)]"
    by (simp add: shape e')
  show "errored (next_tick s)
      = Some (AstroError ResponseSentError (Some \<lparr>loc_file = map_option component rt\<rparr>))"
    by (simp add: shape e' next_tick_def controller_error_def stream_initial_def)
next
  fix result' it sched st
  assume r: "renderToAsyncIterable result componentFactory props children isPage rt
      = Inr (result', Returns it)"
    and run: "run chunkToByteArray result' isPage it sched = Some st"
    and fin: "task st = Finished"
  from r have hp: "(if isPage then bufferHeadContent result else Inr result) = Inr result'"
    and it: "it = iterable_initial t"
    by (auto simp: renderToAsyncIterable_template [OF disp] split: sum.splits)
  have d: "doctype_for result' isPage (writes t) = doctype_for result isPage (writes t)"
    by (rule doctype_for_context [OF head_pass_context [OF hp]])
  have run': "run chunkToByteArray result' isPage (iterable_initial t) sched = Some st"
    using run it by simp
  have wf: "wf_promises st" using run_wf [OF run' wf_promises_initial] .
  show e: "error st = Some (AstroError ResponseSentError None)"
    using run_records_verdict [OF run' fin] settles_response [OF resp]
    by (simp add: recorded_def)
  show "delivered_bytes st @ concat (buffer st)
      = encode (doctype_for result isPage (writes t))
          @ concat (map (chunkToByteArray result') (before_response (writes t)))"
    using run_iterable_initial [OF run'] fin by (simp add: account_Finished d)
  show "\<exists>st'. next_resume (next_call st) = Some st'
      \<and> delivered st' = delivered st @ [Inl (AstroError ResponseSentError None)]"
    using pull_after_failure [OF wf fin e] .
qed (simp_all add: write_response)

theorem response_chunk_mid_stream_witness:
  "renderToString plain_chunkToString page_context
       (constant_factory (FactoryTemplate redirect_template)) () () True (Some about_route)
     = Inr (page_context, Returns ''<!DOCTYPE html>\<newline><p></p>'')
   \<and> (\<exists>s. renderToReadableStream plain_chunkToByteArray page_context
             (constant_factory (FactoryTemplate redirect_template)) () () True
             (Some about_route)
           = Inr (page_context, Returns s)
         \<and> enqueued s = [encode ''<!DOCTYPE html>\<newline>'', encode ''<p>'']
         \<and> timeouts s = [AstroError ResponseSentError
                             (Some \<lparr>loc_file = Some ''src/pages/about.astro''\<rparr>)])
   \<and> (\<exists>it st st'. renderToAsyncIterable page_context
             (constant_factory (FactoryTemplate redirect_template)) () () True
             (Some about_route)
           = Inr (page_context, Returns it)
         \<and> run plain_chunkToByteArray page_context True it
               [RenderStep, RenderStep, RenderStep] = Some st
         \<and> error st = Some (AstroError ResponseSentError None)
         \<and> next_resume (next_call st) = Some st'
         \<and> delivered st' = [Inl (AstroError ResponseSentError None)])"
proof -
  note claim = response_chunk_mid_stream [OF redirect_template_dispatch
      redirect_template_facts(1), of plain_chunkToString True plain_chunkToByteArray]
  have "renderToString plain_chunkToString page_context
       (constant_factory (FactoryTemplate redirect_template)) () () True (Some about_route)
     = Inr (page_context, Returns ''<!DOCTYPE html>\<newline><p></p>'')"
    using claim by (simp add: redirect_template_facts plain_chunkToString_def)
  moreover
  let ?s = "stream_task plain_chunkToByteArray page_context True (Some about_route)
      redirect_template stream_initial"
  have stream: "renderToReadableStream plain_chunkToByteArray page_context
       (constant_factory (FactoryTemplate redirect_template)) () () True (Some about_route)
     = Inr (page_context, Returns ?s)"
    by (simp add: renderToReadableStream_template [OF redirect_template_dispatch]
        page_context_head)
  from claim stream
  have "enqueued ?s = doctype_unit page_context True (writes redirect_template)
          @ map (plain_chunkToByteArray page_context)
              (before_response (writes redirect_template))
      \<and> timeouts ?s = [AstroError ResponseSentError
            (Some \<lparr>loc_file = map_option component (Some about_route)\<rparr>)]"
    by blast
  then have "enqueued ?s = [encode ''<!DOCTYPE html>\<newline>'', encode ''<p>'']
      \<and> timeouts ?s = [AstroError ResponseSentError
            (Some \<lparr>loc_file = Some ''src/pages/about.astro''\<rparr>)]"
    by (simp add: doctype_unit_def redirect_template_facts plain_chunkToByteArray_def
        about_route_def)
  moreover
  have iter: "renderToAsyncIterable page_context
       (constant_factory (FactoryTemplate redirect_template)) () () True (Some about_route)
     = Inr (page_context, Returns (iterable_initial redirect_template))"
    by (simp add: renderToAsyncIterable_template [OF redirect_template_dispatch]
        page_context_head)
  obtain st where st: "run plain_chunkToByteArray page_context True
      (iterable_initial redirect_template) [RenderStep, RenderStep, RenderStep] = Some st"
    "task st = Finished" "delivered st = []"
    using redirect_template_run by blast
  from claim iter st(1,2) obtain st'
    where "error st = Some (AstroError ResponseSentError None)"
      and "next_resume (next_call st) = Some st'"
      and "delivered st' = delivered st @ [Inl (AstroError ResponseSentError None)]"
    by blast
  then have "error st = Some (AstroError ResponseSentError None)
      \<and> next_resume (next_call st) = Some st'
      \<and> delivered st' = [Inl (AstroError ResponseSentError None)]"
    using st(3) by simp
  ultimately show ?thesis using stream iter st(1) by blast
qed

text \<open>
  C9. In all three adapters \<^verbatim>\<open>write\<close> decides on the doctype before it looks whether
  the chunk is a response, and \<^verbatim>\<open>String\<close> of a response does not match the marker.
  So on a full page whose context is not partial, a response written as the very first
  chunk still brings the doctype: the String Adapter appends it to its text, the Stream
  Adapter enqueues it and the Async-Iterable Adapter buffers it, both before they throw
  \<^verbatim>\<open>ResponseSentError\<close>. The flag is then set, and a \<^verbatim>\<open>write\<close> that finds the
  flag set adds nothing but the chunk itself: the String Adapter returns the doctype
  followed by the text of the later chunks, with no second doctype.
\<close>

theorem response_as_first_chunk:
  assumes disp: "callComponentAsTemplateResultOrResponse result componentFactory props children rt
             = Inr (IsTemplate t)"
    and first: "writes t = ChunkResponse r # cs"
    and page: "isPage" and whole: "\<not> partial result"
  shows "(outcome t = Resolves \<longrightarrow>
            renderToString chunkToString result componentFactory props children isPage rt
              = Inr (result, Returns (doctype result
                       @ concat (map (chunkToString result) (non_responses cs)))))
       \<and> (\<forall>result' s.
            renderToReadableStream chunkToByteArray result componentFactory props children
              isPage rt = Inr (result', Returns s) \<longrightarrow>
            renderedFirstPageChunk s \<and> enqueued s = [encode (doctype result)]
            \<and> timeouts s
                = [AstroError ResponseSentError (Some \<lparr>loc_file = map_option component rt\<rparr>)])
       \<and> (\<forall>result' it.
            renderToAsyncIterable result componentFactory props children isPage rt
              = Inr (result', Returns it) \<longrightarrow>
            (\<exists>st1. render_step chunkToByteArray result' isPage it = Some st1
               \<and> renderedFirstPageChunk st1 \<and> buffer st1 = [encode (doctype result)]
               \<and> task st1 = Running [] (Rejects (AstroError ResponseSentError None))))
       \<and> (\<forall>st. \<not> renderedFirstPageChunk st \<longrightarrow>
            string_write chunkToString result isPage st (ChunkResponse r)
              = st\<lparr>renderedFirstPageChunk := True, str := str st @ doctype result\<rparr>)
       \<and> (\<forall>st. \<not> renderedFirstPageChunk st \<longrightarrow>
            stream_write chunkToByteArray result isPage st (ChunkResponse r)
              = (st\<lparr>renderedFirstPageChunk := True,
                     enqueued := enqueued st @ [encode (doctype result)]\<rparr>,
                 Some (AstroError ResponseSentError None)))
       \<and> (\<forall>st. \<not> renderedFirstPageChunk st \<longrightarrow>
            iterable_write chunkToByteArray result isPage st (ChunkResponse r)
              = (st\<lparr>renderedFirstPageChunk := True,
                     buffer := buffer st @ [encode (doctype result)]\<rparr>,
                 Some (AstroError ResponseSentError None)))
       \<and> (\<forall>st c. renderedFirstPageChunk st \<longrightarrow>
            string_write chunkToString result isPage st c
              = (if instanceof_Response c then st
                 else st\<lparr>str := str st @ chunkToString result c\<rparr>))
       \<and> (\<forall>st c. renderedFirstPageChunk st \<longrightarrow>
            fst (stream_write chunkToByteArray result isPage st c)
              = (if instanceof_Response c then st
                 else st\<lparr>enqueued := enqueued st @ [chunkToByteArray result c]\<rparr>))
       \<and> (\<forall>st c. renderedFirstPageChunk st \<longrightarrow>
            concat (buffer (fst (iterable_write chunkToByteArray result isPage st c)))
              = concat (buffer st)
                  @ (if instanceof_Response c then [] else chunkToByteArray result c))"
proof (intro conjI allI impI)
  have df: "doctype_for result isPage (writes t) = doctype result"
    using page whole by (simp add: first doctype_for_Cons needs_doctype_response)
  have nr: "non_responses (writes t) = non_responses cs"
    by (simp add: first non_responses_def)
  {
    assume "outcome t = Resolves"
    then show "renderToString chunkToString result componentFactory props children isPage rt
        = Inr (result, Returns (doctype result
                 @ concat (map (chunkToString result) (non_responses cs))))"
      by (simp add: renderToString_template [OF disp] df nr)
  }
  {
    fix result' s
    assume r: "renderToReadableStream chunkToByteArray result componentFactory props children
        isPage rt = Inr (result', Returns s)"
    then have hp: "(if isPage then bufferHeadContent result else Inr result) = Inr result'"
      and s: "s = stream_task chunkToByteArray result' isPage rt t stream_initial"
      by (auto simp: renderToReadableStream_template [OF disp] split: sum.splits)
    have du: "doctype_unit result' isPage (writes t) = [encode (doctype result)]"
      using doctype_for_context [OF head_pass_context [OF hp], of isPage "writes t"] df
      by (simp add: doctype_unit_def doctype_def)
    have v: "settles (writes t) (outcome t) = Rejects (AstroError ResponseSentError None)"
      by (simp add: first settles_Cons)
    have br: "before_response (writes t) = []" and ne: "writes t \<noteq> []"
      by (simp_all add: first before_response_def)
    have shape: "s = stream_initial\<lparr>renderedFirstPageChunk := True,
        enqueued := [encode (doctype result)],
        timeouts := [surfaced rt (AstroError ResponseSentError None)]\<rparr>"
      using du page by (simp add: s stream_task_settled v br ne)
    show "renderedFirstPageChunk s" by (simp add: shape)
    show "enqueued s = [encode (doctype result)]" by (simp add: shape)
    show "timeouts s
        = [AstroError ResponseSentError (Some \<lparr>loc_file = map_option component rt\<rparr>)]"
      by (simp add: shape surfaced_def)
  }
  {
    fix result' it
    assume r: "renderToAsyncIterable result componentFactory props children isPage rt
        = Inr (result', Returns it)"
    then have hp: "(if isPage then bufferHeadContent result else Inr result) = Inr result'"
      and it: "it = iterable_initial t"
      by (auto simp: renderToAsyncIterable_template [OF disp] split: sum.splits)
    have ctx: "\<not> partial result'" "doctype result' = doctype result"
      using head_pass_context(1) [OF hp] whole doctype_context [OF head_pass_context(2) [OF hp]]
      by simp_all
    have fresh: "\<not> renderedFirstPageChunk (iterable_initial t)"
      by (simp add: iterable_initial_def)
    have w: "iterable_write chunkToByteArray result' isPage (iterable_initial t)
        (ChunkResponse r)
      = ((iterable_initial t)\<lparr>renderedFirstPageChunk := True,
            buffer := buffer (iterable_initial t) @ [encode (doctype result)]\<rparr>,
         Some (AstroError ResponseSentError None))"
      using write_first_response(3) [OF page ctx(1) fresh] ctx(2) by simp
    have t0: "task (iterable_initial t) = Running (ChunkResponse r # cs) (outcome t)"
      by (simp add: iterable_initial_def first)
    have "render_step chunkToByteArray result' isPage it
      = Some ((iterable_initial t)\<lparr>renderedFirstPageChunk := True,
            buffer := buffer (iterable_initial t) @ [encode (doctype result)],
            task := Running [] (Rejects (AstroError ResponseSentError None))\<rparr>)"
      by (simp add: it render_step_def t0 w)
    then show "\<exists>st1. render_step chunkToByteArray result' isPage it = Some st1
        \<and> renderedFirstPageChunk st1 \<and> buffer st1 = [encode (doctype result)]
        \<and> task st1 = Running [] (Rejects (AstroError ResponseSentError None))"
      by (simp add: iterable_initial_def)
  }
qed (simp_all add: write_first_response [OF page whole] write_after_first)

theorem response_as_first_chunk_witness:
  "renderToString plain_chunkToString page_context
       (constant_factory (FactoryTemplate first_response_template)) () () True None
     = Inr (page_context, Returns ''<!DOCTYPE html>\<newline><html>'')
   \<and> (\<exists>s. renderToReadableStream plain_chunkToByteArray page_context
             (constant_factory (FactoryTemplate first_response_template)) () () True None
           = Inr (page_context, Returns s)
         \<and> enqueued s = [encode ''<!DOCTYPE html>\<newline>''])
   \<and> (\<exists>it st1. renderToAsyncIterable page_context
             (constant_factory (FactoryTemplate first_response_template)) () () True None
           = Inr (page_context, Returns it)
         \<and> render_step plain_chunkToByteArray page_context True it = Some st1
         \<and> buffer st1 = [encode ''<!DOCTYPE html>\<newline>'']
         \<and> task st1 = Running [] (Rejects (AstroError ResponseSentError None)))"
proof -
  have first: "writes first_response_template
      = ChunkResponse (Response 3) # [ChunkString ''<html>'']"
    and ok: "outcome first_response_template = Resolves"
    by (simp_all add: first_response_template_def)
  note claim = response_as_first_chunk [OF first_response_template_dispatch first
      TrueI page_context_facts(1), of plain_chunkToString plain_chunkToByteArray]
  have "renderToString plain_chunkToString page_context
       (constant_factory (FactoryTemplate first_response_template)) () () True None
     = Inr (page_context, Returns ''<!DOCTYPE html>\<newline><html>'')"
    using claim ok
    by (simp add: page_context_facts(2) non_responses_def plain_chunkToString_def)
  moreover
  let ?s = "stream_task plain_chunkToByteArray page_context True None
      first_response_template stream_initial"
  have stream: "renderToReadableStream plain_chunkToByteArray page_context
       (constant_factory (FactoryTemplate first_response_template)) () () True None
     = Inr (page_context, Returns ?s)"
    by (simp add: renderToReadableStream_template [OF first_response_template_dispatch]
        page_context_head)
  from claim stream have "enqueued ?s = [encode (doctype page_context)]" by blast
  then have "enqueued ?s = [encode ''<!DOCTYPE html>\<newline>'']"
    by (simp add: page_context_facts(2))
  moreover
  have iter: "renderToAsyncIterable page_context
       (constant_factory (FactoryTemplate first_response_template)) () () True None
     = Inr (page_context, Returns (iterable_initial first_response_template))"
    by (simp add: renderToAsyncIterable_template [OF first_response_template_dispatch]
        page_context_head)
  from claim iter obtain st1
    where "render_step plain_chunkToByteArray page_context True
        (iterable_initial first_response_template) = Some st1"
      and "buffer st1 = [encode (doctype page_context)]"
      and "task st1 = Running [] (Rejects (AstroError ResponseSentError None))"
    by blast
  then have "render_step plain_chunkToByteArray page_context True
        (iterable_initial first_response_template) = Some st1
      \<and> buffer st1 = [encode ''<!DOCTYPE html>\<newline>'']
      \<and> task st1 = Running [] (Rejects (AstroError ResponseSentError None))"
    by (simp add: page_context_facts(2))
  ultimately show ?thesis using stream iter by blast
qed

text \<open>
  C6. For a full page the Stream Adapter and the Async-Iterable Adapter run
  \<^verbatim>\<open>bufferHeadContent\<close> to its end before they create the stream or the iterable: the
  context they return is the one the pass leaves, the stream's task writes its chunks in
  that context, and the iterable is handed out with no chunk written; if an initializer
  rejects, both adapters reject and nothing is written. The pass visits the propagator
  set in iteration order, the instances added meanwhile included: every instance of the
  final set has had its initializer resolved, the set keeps one entry per instance, and
  \<^verbatim>\<open>extraHead\<close> has grown by the head fragments of the instances whose initializer gave
  a head+content pair, one per instance and in the order of the set. The String Adapter
  returns the context as it got it.
\<close>

theorem head_pass_precedes_body:
  assumes disp: "callComponentAsTemplateResultOrResponse result componentFactory props children rt
             = Inr (IsTemplate t)"
  shows "(isPage \<longrightarrow>
            (\<forall>result' s.
               renderToReadableStream chunkToByteArray result componentFactory props children
                 isPage rt = Inr (result', Returns s) \<longrightarrow>
               bufferHeadContent result = Inr result'
               \<and> s = stream_task chunkToByteArray result' isPage rt t stream_initial)
            \<and> (\<forall>result' it.
               renderToAsyncIterable result componentFactory props children isPage rt
                 = Inr (result', Returns it) \<longrightarrow>
               bufferHeadContent result = Inr result' \<and> it = iterable_initial t)
            \<and> (\<forall>e. bufferHeadContent result = Inl e \<longrightarrow>
               renderToReadableStream chunkToByteArray result componentFactory props children
                 isPage rt = Inl e
               \<and> renderToAsyncIterable result componentFactory props children isPage rt
                   = Inl e))
       \<and> (\<forall>result'. bufferHeadContent result = Inr result' \<longrightarrow>
            (\<exists>added. propagators (metadata result') = propagators (metadata result) @ added)
            \<and> extraHead (metadata result')
                = extraHead (metadata result) @ heads_of (propagators (metadata result'))
            \<and> list_all init_resolves (propagators (metadata result'))
            \<and> (distinct (map instance_id (propagators (metadata result))) \<longrightarrow>
                 distinct (map instance_id (propagators (metadata result')))))
       \<and> (\<forall>result' out.
            renderToString chunkToString result componentFactory props children isPage rt
              = Inr (result', out) \<longrightarrow> result' = result)"
proof (intro conjI allI impI)
  fix result' s
  assume "isPage"
    and "renderToReadableStream chunkToByteArray result componentFactory props children
      isPage rt = Inr (result', Returns s)"
  then show "bufferHeadContent result = Inr result'"
    and "s = stream_task chunkToByteArray result' isPage rt t stream_initial"
    by (auto simp: renderToReadableStream_template [OF disp] split: sum.splits)
next
  fix result' it
  assume "isPage"
    and "renderToAsyncIterable result componentFactory props children isPage rt
      = Inr (result', Returns it)"
  then show "bufferHeadContent result = Inr result'" and "it = iterable_initial t"
    by (auto simp: renderToAsyncIterable_template [OF disp] split: sum.splits)
next
  fix e
  assume "isPage" and "bufferHeadContent result = Inl e"
  then show "renderToReadableStream chunkToByteArray result componentFactory props children
      isPage rt = Inl e"
    and "renderToAsyncIterable result componentFactory props children isPage rt = Inl e"
    by (simp_all add: renderToReadableStream_template [OF disp]
        renderToAsyncIterable_template [OF disp])
next
  fix result'
  assume b: "bufferHeadContent result = Inr result'"
  note facts = bufferHeadContent_facts [OF b]
  show "\<exists>added. propagators (metadata result') = propagators (metadata result) @ added"
    by (rule facts(1))
  show "extraHead (metadata result')
      = extraHead (metadata result) @ heads_of (propagators (metadata result'))"
    by (rule facts(2))
  show "list_all init_resolves (propagators (metadata result'))"
    by (rule facts(3))
  assume "distinct (map instance_id (propagators (metadata result)))"
  then show "distinct (map instance_id (propagators (metadata result')))"
    by (rule facts(6))
next
  fix result' out
  assume "renderToString chunkToString result componentFactory props children isPage rt
      = Inr (result', out)"
  then show "result' = result"
    by (auto simp: renderToString_template [OF disp] split: render_outcome.splits)
qed

theorem head_pass_precedes_body_witness:
  "(\<exists>result' s. renderToReadableStream plain_chunkToByteArray nested_context
         (constant_factory (FactoryTemplate nav_template)) () () True None
       = Inr (result', Returns s)
     \<and> bufferHeadContent nested_context = Inr result'
     \<and> map instance_id (propagators (metadata result')) = [1, 3, 2]
     \<and> extraHead (metadata result') = [''<meta>'', ''<link a>'', ''<link b>'']
     \<and> heads_of (propagators (metadata result')) = [''<link a>'', ''<link b>'']
     \<and> s = stream_task plain_chunkToByteArray result' True None nav_template stream_initial)
   \<and> renderToString plain_chunkToString nested_context
         (constant_factory (FactoryTemplate nav_template)) () () True None
       = Inr (nested_context, Returns ''<!DOCTYPE html>\<newline><nav></nav>'')"
proof -
  note claim = head_pass_precedes_body [OF nav_template_dispatch,
      of True plain_chunkToByteArray plain_chunkToString]
  let ?result' = "nested_context\<lparr>metadata :=
       \<lparr>propagators = nested_instances
          @ [Propagator 2 (Inr (FactoryHeadAndContent ''<link b>'' nav_template)) []],
        extraHead = [''<meta>'', ''<link a>'', ''<link b>'']\<rparr>\<rparr>"
  let ?s = "stream_task plain_chunkToByteArray ?result' True None nav_template stream_initial"
  have stream: "renderToReadableStream plain_chunkToByteArray nested_context
         (constant_factory (FactoryTemplate nav_template)) () () True None
       = Inr (?result', Returns ?s)"
    by (simp add: renderToReadableStream_template [OF nav_template_dispatch]
        nested_context_head)
  from claim stream have pass: "bufferHeadContent nested_context = Inr ?result'"
    by blast
  from claim pass have heads: "extraHead (metadata ?result')
      = extraHead (metadata nested_context) @ heads_of (propagators (metadata ?result'))"
    by blast
  have ids: "map instance_id (propagators (metadata ?result')) = [1, 3, 2]"
    by (simp add: nested_instances_def)
  have eh: "extraHead (metadata ?result') = [''<meta>'', ''<link a>'', ''<link b>'']"
    by simp
  have ho: "heads_of (propagators (metadata ?result')) = [''<link a>'', ''<link b>'']"
    using heads by (simp add: nested_context_def)
  have first: "\<exists>result' s. renderToReadableStream plain_chunkToByteArray nested_context
         (constant_factory (FactoryTemplate nav_template)) () () True None
       = Inr (result', Returns s)
     \<and> bufferHeadContent nested_context = Inr result'
     \<and> map instance_id (propagators (metadata result')) = [1, 3, 2]
     \<and> extraHead (metadata result') = [''<meta>'', ''<link a>'', ''<link b>'']
     \<and> heads_of (propagators (metadata result')) = [''<link a>'', ''<link b>'']
     \<and> s = stream_task plain_chunkToByteArray result' True None nav_template stream_initial"
  proof (intro exI conjI)
    show "renderToReadableStream plain_chunkToByteArray nested_context
         (constant_factory (FactoryTemplate nav_template)) () () True None
       = Inr (?result', Returns ?s)" by (rule stream)
    show "bufferHeadContent nested_context = Inr ?result'" by (rule pass)
    show "map instance_id (propagators (metadata ?result')) = [1, 3, 2]" by (rule ids)
    show "extraHead (metadata ?result') = [''<meta>'', ''<link a>'', ''<link b>'']"
      by (rule eh)
    show "heads_of (propagators (metadata ?result')) = [''<link a>'', ''<link b>'']"
      by (rule ho)
    show "?s = stream_task plain_chunkToByteArray ?result' True None nav_template
        stream_initial" by (rule refl)
  qed
  have "renderToString plain_chunkToString nested_context
         (constant_factory (FactoryTemplate nav_template)) () () True None
       = Inr (nested_context, Returns ''<!DOCTYPE html>\<newline><nav></nav>'')"
  proof -
    have "outcome nav_template = Resolves"
      and "doctype_for nested_context True (writes nav_template) = ''<!DOCTYPE html>\<newline>''"
      and "concat (map (plain_chunkToString nested_context) (non_responses (writes nav_template)))
        = ''<nav></nav>''"
      by (simp_all add: nav_template_def doctype_for_def nested_context_def
          DOCTYPE_EXP_test_def canonicalize_def non_responses_def plain_chunkToString_def)
    then show ?thesis
      by (simp add: renderToString_template [OF nav_template_dispatch])
  qed
  with first show ?thesis by blast
qed

end
